theory Spec2Isabelle
  imports Main "HOL-Library.Word"
begin

section \<open>Data model of \<^verbatim>\<open>file.cpp\<close>\<close>

text \<open>
  Pointers are addresses, the null pointer is address 0.  A \<^verbatim>\<open>file_handler *\<close> is the
  address of a caller-owned handler object; a \<^verbatim>\<open>FileHandlerSm *\<close> (and the smart pointer
  \<^verbatim>\<open>FileHandlerSm::Ptr\<close>) is the address of a node in the heap of handler state machines.
  A file descriptor is the C++ \<^verbatim>\<open>int\<close>, 32 bits wide; the code only stores it and uses it
  as a key.
\<close>

type_synonym file_handler_ptr = nat
type_synonym FileHandlerSm_ptr = nat
type_synonym fd_t = "32 word"

datatype error = AssertionFailed | InvalidDereference

text \<open>
  \<^verbatim>\<open>Tac::FileDescriptor\<close>: the descriptor number and the three notification flags that
  the polling collaborator watches.
\<close>

record FileDescriptor =
  descriptor :: fd_t
  notifyOnReadable :: bool
  notifyOnWritable :: bool
  notifyOnException :: bool

text \<open>
  \<^verbatim>\<open>FileDescriptorSm\<close>: its key \<^verbatim>\<open>fd()\<close>, the descriptor object it owns and the raw back
  pointer \<^verbatim>\<open>fileHandlerSm()\<close> to the node that holds it.
\<close>

record FileDescriptorSm =
  fd :: fd_t
  fileDescriptor :: FileDescriptor
  fileHandlerSm :: FileHandlerSm_ptr

text \<open>\<^verbatim>\<open>FileHandlerSm\<close>: the collection \<^verbatim>\<open>fileDescriptorSm\<close>, keyed by descriptor number.\<close>

record FileHandlerSm =
  fileDescriptorSm :: "fd_t \<rightharpoonup> FileDescriptorSm"

text \<open>
  The process state: the two global \<^verbatim>\<open>std::map\<close>s of \<^verbatim>\<open>file.cpp\<close> and the heap of
  \<^verbatim>\<open>FileHandlerSm\<close> nodes they point into.
\<close>

record eos_state =
  fileHandlerToFileHandlerSm :: "file_handler_ptr \<rightharpoonup> FileHandlerSm_ptr"
  fileHandlerSmToFileHandler :: "FileHandlerSm_ptr \<rightharpoonup> file_handler_ptr"
  heap :: "FileHandlerSm_ptr \<rightharpoonup> FileHandlerSm"

definition initial_state :: eos_state where
  "initial_state =
     \<lparr>fileHandlerToFileHandlerSm = Map.empty,
      fileHandlerSmToFileHandler = Map.empty,
      heap = Map.empty\<rparr>"

text \<open>
  \<^verbatim>\<open>std::map::operator[]\<close> on a map of pointers: a missing key is inserted with the
  value-initialised (null) pointer, and the stored value is returned.
\<close>

definition map_subscript :: "('k \<rightharpoonup> nat) \<Rightarrow> 'k \<Rightarrow> ('k \<rightharpoonup> nat) \<times> nat" where
  "map_subscript m k = (case m k of None \<Rightarrow> (m(k \<mapsto> 0), 0) | Some v \<Rightarrow> (m, v))"

text \<open>\<^verbatim>\<open>std::map::erase(key)\<close>.\<close>

definition map_erase :: "('k \<rightharpoonup> 'v) \<Rightarrow> 'k \<Rightarrow> ('k \<rightharpoonup> 'v)" where
  "map_erase m k = m(k := None)"

section \<open>The generated state-machine classes\<close>

text \<open>
  Modelled from the spec: \<^verbatim>\<open>FileSm.h\<close>, which declares \<^verbatim>\<open>FileHandlerSm\<close>,
  \<^verbatim>\<open>FileDescriptorSm\<close> and \<^verbatim>\<open>Tac::FileDescriptor\<close>, is not among the sources.  The
  factory \<^verbatim>\<open>FileHandlerSm::FileHandlerSmIs()\<close> "allocates a new HandlerState": a node
  with an empty descriptor collection.
\<close>

definition FileHandlerSmIs :: FileHandlerSm where
  "FileHandlerSmIs = \<lparr>fileDescriptorSm = Map.empty\<rparr>"

text \<open>
  Modelled from the spec: \<^verbatim>\<open>Tac::FileDescriptor::FileDescriptorIs(name)\<close> makes a
  descriptor object "with all three flags false".  Its descriptor number is not set yet;
  \<^verbatim>\<open>get_file_descriptor_sm\<close> stores it before anything reads it.
\<close>

definition FileDescriptorIs :: "string \<Rightarrow> FileDescriptor" where
  "FileDescriptorIs name =
     \<lparr>descriptor = 0, notifyOnReadable = False, notifyOnWritable = False,
      notifyOnException = False\<rparr>"

text \<open>
  Modelled from the spec: \<^verbatim>\<open>FileHandlerSm::fileDescriptorSmIs(fd, fileDescriptor, fhSm)\<close>
  is "get-or-create.  If no record exists for fd, creates one ... and inserts it; always
  returns a usable record".  An existing record is left as it is.
\<close>

definition fileDescriptorSmIs ::
  "FileHandlerSm \<Rightarrow> fd_t \<Rightarrow> FileDescriptor \<Rightarrow> FileHandlerSm_ptr \<Rightarrow> FileHandlerSm" where
  "fileDescriptorSmIs hs n fdesc owner =
     (case fileDescriptorSm hs n of
        Some existing \<Rightarrow> hs
      | None \<Rightarrow>
          hs\<lparr>fileDescriptorSm := (fileDescriptorSm hs)
                (n \<mapsto> \<lparr>fd = n, fileDescriptor = fdesc, fileHandlerSm = owner\<rparr>)\<rparr>)"

text \<open>
  Modelled from the spec: \<^verbatim>\<open>FileHandlerSm::fileDescriptorSmDel(fd)\<close> "removes and
  discards the record".
\<close>

definition fileDescriptorSmDel :: "FileHandlerSm \<Rightarrow> fd_t \<Rightarrow> FileHandlerSm" where
  "fileDescriptorSmDel hs n = hs\<lparr>fileDescriptorSm := (fileDescriptorSm hs)(n := None)\<rparr>"

text \<open>
  A \<^verbatim>\<open>FileDescriptorSm::Ptr\<close> obtained from a node's collection refers to the record
  stored there: the node's address and the key.  Writing through the pointer updates the
  record in place.
\<close>

type_synonym FileDescriptorSm_ptr = "FileHandlerSm_ptr \<times> fd_t"

definition fdSm_deref :: "eos_state \<Rightarrow> FileDescriptorSm_ptr \<Rightarrow> FileDescriptorSm option" where
  "fdSm_deref g p =
     (case heap g (fst p) of None \<Rightarrow> None | Some hs \<Rightarrow> fileDescriptorSm hs (snd p))"

definition fdSm_modify ::
  "eos_state \<Rightarrow> FileDescriptorSm_ptr \<Rightarrow> (FileDescriptor \<Rightarrow> FileDescriptor) \<Rightarrow> eos_state" where
  "fdSm_modify g p f =
     (case heap g (fst p) of
        None \<Rightarrow> g
      | Some hs \<Rightarrow>
          (case fileDescriptorSm hs (snd p) of
             None \<Rightarrow> g
           | Some d \<Rightarrow>
               g\<lparr>heap := (heap g)(fst p \<mapsto>
                   hs\<lparr>fileDescriptorSm := (fileDescriptorSm hs)
                        (snd p \<mapsto> d\<lparr>fileDescriptor := f (fileDescriptor d)\<rparr>)\<rparr>)\<rparr>))"

section \<open>Handler construction and destruction\<close>

text \<open>
  \<^verbatim>\<open>file_handler::file_handler()\<close>.  The address \<open>this\<close> of the handler under
  construction and the address \<open>node\<close> that the allocator hands out for the new
  \<^verbatim>\<open>FileHandlerSm\<close> are inputs.  Assigning the new smart pointer to an entry that already
  holds another node releases that node.
\<close>

definition file_handler_ctor ::
  "eos_state \<Rightarrow> file_handler_ptr \<Rightarrow> FileHandlerSm_ptr \<Rightarrow> eos_state" where
  "file_handler_ctor g this node =
     (let g1 = g\<lparr>heap := (heap g)(node \<mapsto> FileHandlerSmIs)\<rparr>;
          g2 = g1\<lparr>fileHandlerSmToFileHandler :=
                    (fileHandlerSmToFileHandler g1)(node \<mapsto> this)\<rparr>;
          (m1, previous) = map_subscript (fileHandlerToFileHandlerSm g2) this;
          g3 = g2\<lparr>fileHandlerToFileHandlerSm := m1(this \<mapsto> node),
                  heap := (if previous = 0 \<or> previous = node then heap g2
                           else (heap g2)(previous := None))\<rparr>
      in g3)"

text \<open>
  \<^verbatim>\<open>file_handler::~file_handler()\<close>.  The registry held the only owning pointer to the
  node, so dropping it discards the node (spec: "its reverse-lookup entry is removed and
  then the state itself is discarded").
\<close>

definition file_handler_dtor :: "eos_state \<Rightarrow> file_handler_ptr \<Rightarrow> eos_state" where
  "file_handler_dtor g this =
     (let (m1, node) = map_subscript (fileHandlerToFileHandlerSm g) this;
          m2 = map_erase (fileHandlerSmToFileHandler g) node;
          m3 = map_erase m1 this
      in g\<lparr>fileHandlerToFileHandlerSm := m3,
            fileHandlerSmToFileHandler := m2,
            heap := (if node = 0 then heap g else (heap g)(node := None))\<rparr>)"

section \<open>The interest setters\<close>

text \<open>\<^verbatim>\<open>get_file_descriptor_sm(file_handler, fd)\<close>.\<close>

definition get_file_descriptor_sm ::
  "eos_state \<Rightarrow> file_handler_ptr \<Rightarrow> fd_t \<Rightarrow> error + (eos_state \<times> FileDescriptorSm_ptr)" where
  "get_file_descriptor_sm g handler n =
     (let (m1, fhSm) = map_subscript (fileHandlerToFileHandlerSm g) handler;
          g1 = g\<lparr>fileHandlerToFileHandlerSm := m1\<rparr>
      in if fhSm = 0 then Inl AssertionFailed
         else (case heap g1 fhSm of
                 None \<Rightarrow> Inl InvalidDereference
               | Some hs \<Rightarrow>
                   (let hs1 = fileDescriptorSmIs hs n (FileDescriptorIs ''FileDescriptor'') fhSm;
                        g2 = g1\<lparr>heap := (heap g1)(fhSm \<mapsto> hs1)\<rparr>;
                        fdSm = (fhSm, n);
                        g3 = fdSm_modify g2 fdSm (\<lambda>x. x\<lparr>descriptor := n\<rparr>)
                    in Inr (g3, fdSm))))"

text \<open>\<^verbatim>\<open>FileHandlerSm::maybeCleanupAfterFileDescriptor(fd)\<close>, called on the node \<open>self\<close>.\<close>

definition maybeCleanupAfterFileDescriptor ::
  "eos_state \<Rightarrow> FileHandlerSm_ptr \<Rightarrow> fd_t \<Rightarrow> error + eos_state" where
  "maybeCleanupAfterFileDescriptor g self n =
     (case heap g self of
        None \<Rightarrow> Inl InvalidDereference
      | Some hs \<Rightarrow>
          (case fileDescriptorSm hs n of
             None \<Rightarrow> Inl AssertionFailed
           | Some fdSm \<Rightarrow>
               if \<not> notifyOnReadable (fileDescriptor fdSm) \<and>
                  \<not> notifyOnWritable (fileDescriptor fdSm) \<and>
                  \<not> notifyOnException (fileDescriptor fdSm)
               then Inr (g\<lparr>heap := (heap g)(self \<mapsto> fileDescriptorSmDel hs n)\<rparr>)
               else Inr g))"

text \<open>\<^verbatim>\<open>file_handler::read_interest_is(fd, interest)\<close>.\<close>

definition read_interest_is ::
  "eos_state \<Rightarrow> file_handler_ptr \<Rightarrow> fd_t \<Rightarrow> bool \<Rightarrow> error + eos_state" where
  "read_interest_is g this n interest =
     (case get_file_descriptor_sm g this n of
        Inl e \<Rightarrow> Inl e
      | Inr (g1, fdSm) \<Rightarrow>
          (let g2 = fdSm_modify g1 fdSm (\<lambda>x. x\<lparr>notifyOnReadable := interest\<rparr>)
           in if \<not> interest
              then (case fdSm_deref g2 fdSm of
                      None \<Rightarrow> Inl InvalidDereference
                    | Some d \<Rightarrow> maybeCleanupAfterFileDescriptor g2 (fileHandlerSm d) n)
              else Inr g2))"

text \<open>\<^verbatim>\<open>file_handler::write_interest_is(fd, interest)\<close>.\<close>

definition write_interest_is ::
  "eos_state \<Rightarrow> file_handler_ptr \<Rightarrow> fd_t \<Rightarrow> bool \<Rightarrow> error + eos_state" where
  "write_interest_is g this n interest =
     (case get_file_descriptor_sm g this n of
        Inl e \<Rightarrow> Inl e
      | Inr (g1, fdSm) \<Rightarrow>
          (let g2 = fdSm_modify g1 fdSm (\<lambda>x. x\<lparr>notifyOnWritable := interest\<rparr>)
           in if \<not> interest
              then (case fdSm_deref g2 fdSm of
                      None \<Rightarrow> Inl InvalidDereference
                    | Some d \<Rightarrow> maybeCleanupAfterFileDescriptor g2 (fileHandlerSm d) n)
              else Inr g2))"

text \<open>\<^verbatim>\<open>file_handler::exception_interest_is(fd, interest)\<close>.\<close>

definition exception_interest_is ::
  "eos_state \<Rightarrow> file_handler_ptr \<Rightarrow> fd_t \<Rightarrow> bool \<Rightarrow> error + eos_state" where
  "exception_interest_is g this n interest =
     (case get_file_descriptor_sm g this n of
        Inl e \<Rightarrow> Inl e
      | Inr (g1, fdSm) \<Rightarrow>
          (let g2 = fdSm_modify g1 fdSm (\<lambda>x. x\<lparr>notifyOnException := interest\<rparr>)
           in if \<not> interest
              then (case fdSm_deref g2 fdSm of
                      None \<Rightarrow> Inl InvalidDereference
                    | Some d \<Rightarrow> maybeCleanupAfterFileDescriptor g2 (fileHandlerSm d) n)
              else Inr g2))"

section \<open>The dispatch adapter\<close>

text \<open>
  A call of one of the handler's virtual callbacks: which handler, which callback, and
  the descriptor number passed.  What the callback then does is the caller's code.
\<close>

datatype callback =
    on_readable file_handler_ptr fd_t
  | on_writable file_handler_ptr fd_t
  | on_exception file_handler_ptr fd_t

text \<open>
  \<^verbatim>\<open>FileDescriptorSm::handleReadable()\<close> on the record \<open>self\<close>.  A failed \<^verbatim>\<open>assert\<close>
  aborts the process.
\<close>

definition handleReadable :: "eos_state \<Rightarrow> FileDescriptorSm \<Rightarrow> error + (eos_state \<times> callback)" where
  "handleReadable g self =
     (let (m1, fh) = map_subscript (fileHandlerSmToFileHandler g) (fileHandlerSm self);
          g1 = g\<lparr>fileHandlerSmToFileHandler := m1\<rparr>
      in if fh = 0 then Inl AssertionFailed else Inr (g1, on_readable fh (fd self)))"

text \<open>\<^verbatim>\<open>FileDescriptorSm::handleWritable()\<close>.\<close>

definition handleWritable :: "eos_state \<Rightarrow> FileDescriptorSm \<Rightarrow> error + (eos_state \<times> callback)" where
  "handleWritable g self =
     (let (m1, fh) = map_subscript (fileHandlerSmToFileHandler g) (fileHandlerSm self);
          g1 = g\<lparr>fileHandlerSmToFileHandler := m1\<rparr>
      in if fh = 0 then Inl AssertionFailed else Inr (g1, on_writable fh (fd self)))"

text \<open>\<^verbatim>\<open>FileDescriptorSm::handleExceptionPending()\<close>.\<close>

definition handleExceptionPending ::
  "eos_state \<Rightarrow> FileDescriptorSm \<Rightarrow> error + (eos_state \<times> callback)" where
  "handleExceptionPending g self =
     (let (m1, fh) = map_subscript (fileHandlerSmToFileHandler g) (fileHandlerSm self);
          g1 = g\<lparr>fileHandlerSmToFileHandler := m1\<rparr>
      in if fh = 0 then Inl AssertionFailed else Inr (g1, on_exception fh (fd self)))"

section \<open>Uniform view of the three setters and the three dispatch entries\<close>

datatype interest_kind = Readable | Writable | ExceptionPending

fun set_interest ::
  "interest_kind \<Rightarrow> eos_state \<Rightarrow> file_handler_ptr \<Rightarrow> fd_t \<Rightarrow> bool \<Rightarrow> error + eos_state" where
  "set_interest Readable g this n interest = read_interest_is g this n interest"
| "set_interest Writable g this n interest = write_interest_is g this n interest"
| "set_interest ExceptionPending g this n interest = exception_interest_is g this n interest"

fun dispatch ::
  "interest_kind \<Rightarrow> eos_state \<Rightarrow> FileDescriptorSm \<Rightarrow> error + (eos_state \<times> callback)" where
  "dispatch Readable g self = handleReadable g self"
| "dispatch Writable g self = handleWritable g self"
| "dispatch ExceptionPending g self = handleExceptionPending g self"

fun callback_of :: "interest_kind \<Rightarrow> file_handler_ptr \<Rightarrow> fd_t \<Rightarrow> callback" where
  "callback_of Readable h n = on_readable h n"
| "callback_of Writable h n = on_writable h n"
| "callback_of ExceptionPending h n = on_exception h n"

fun flag :: "interest_kind \<Rightarrow> FileDescriptor \<Rightarrow> bool" where
  "flag Readable x = notifyOnReadable x"
| "flag Writable x = notifyOnWritable x"
| "flag ExceptionPending x = notifyOnException x"

text \<open>The descriptor collection of a handler, and the record it holds for a descriptor.\<close>

definition descriptors_of :: "eos_state \<Rightarrow> file_handler_ptr \<Rightarrow> (fd_t \<rightharpoonup> FileDescriptorSm)" where
  "descriptors_of g h =
     (case fileHandlerToFileHandlerSm g h of
        None \<Rightarrow> Map.empty
      | Some node \<Rightarrow> (case heap g node of None \<Rightarrow> Map.empty | Some hs \<Rightarrow> fileDescriptorSm hs))"

text \<open>
  The current value of an interest flag of \<open>(h, n)\<close>: the stored flag, and false when the
  handler holds no record for \<open>n\<close>.
\<close>

definition interest_of :: "eos_state \<Rightarrow> file_handler_ptr \<Rightarrow> fd_t \<Rightarrow> interest_kind \<Rightarrow> bool" where
  "interest_of g h n k =
     (case descriptors_of g h n of None \<Rightarrow> False | Some d \<Rightarrow> flag k (fileDescriptor d))"

section \<open>Runs of the program\<close>

text \<open>
  What the callers and the polling collaborator do to the core, one event at a time: a
  handler is constructed at address \<open>h\<close> while the allocator returns \<open>node\<close>, a handler is
  destroyed, a handler sets an interest, or the poller delivers a readiness event to the
  record that node \<open>node\<close> holds for descriptor \<open>n\<close> (there is nothing to deliver to when
  the node holds no such record).  The callback that a delivery makes is the caller's code;
  what it does to the core are further events of the run.
\<close>

datatype event =
    Construct file_handler_ptr FileHandlerSm_ptr
  | Destruct file_handler_ptr
  | SetInterest interest_kind file_handler_ptr fd_t bool
  | Deliver interest_kind FileHandlerSm_ptr fd_t

fun step :: "eos_state \<Rightarrow> event \<Rightarrow> error + eos_state" where
  "step g (Construct h node) = Inr (file_handler_ctor g h node)"
| "step g (Destruct h) = Inr (file_handler_dtor g h)"
| "step g (SetInterest k h n v) = set_interest k g h n v"
| "step g (Deliver k node n) =
     (case fdSm_deref g (node, n) of
        None \<Rightarrow> Inr g
      | Some d \<Rightarrow> (case dispatch k g d of Inl e \<Rightarrow> Inl e | Inr (g1, c) \<Rightarrow> Inr g1))"

fun run :: "eos_state \<Rightarrow> event list \<Rightarrow> error + eos_state" where
  "run g [] = Inr g"
| "run g (e # es) = (case step g e of Inl x \<Rightarrow> Inl x | Inr g1 \<Rightarrow> run g1 es)"

text \<open>
  What C++ and the allocator guarantee about an event: an object under construction has a
  non-null address at which no other handler is alive, the allocator returns a non-null
  address that is not in use, and only a constructed handler is destroyed.  Interest
  setters and deliveries are not restricted.
\<close>

fun admissible_event :: "eos_state \<Rightarrow> event \<Rightarrow> bool" where
  "admissible_event g (Construct h node) =
     (h \<noteq> 0 \<and> fileHandlerToFileHandlerSm g h = None \<and> node \<noteq> 0 \<and> heap g node = None)"
| "admissible_event g (Destruct h) = (fileHandlerToFileHandlerSm g h \<noteq> None)"
| "admissible_event g (SetInterest k h n v) = True"
| "admissible_event g (Deliver k node n) = True"

fun admissible :: "eos_state \<Rightarrow> event list \<Rightarrow> bool" where
  "admissible g [] = True"
| "admissible g (e # es) =
     (admissible_event g e \<and>
      (case step g e of Inl x \<Rightarrow> True | Inr g1 \<Rightarrow> admissible g1 es))"

text \<open>The handlers alive after a run: constructed and not destroyed since.\<close>

fun live_after :: "file_handler_ptr set \<Rightarrow> event list \<Rightarrow> file_handler_ptr set" where
  "live_after L [] = L"
| "live_after L (Construct h node # es) = live_after (insert h L) es"
| "live_after L (Destruct h # es) = live_after (L - {h}) es"
| "live_after L (e # es) = live_after L es"

section \<open>Invariants\<close>

text \<open>
  The identity registry: the two maps are inverses of each other, they hold no null
  pointer, and the heap holds a node exactly for the registered ones.
\<close>

definition registry_inv :: "eos_state \<Rightarrow> bool" where
  "registry_inv g \<longleftrightarrow>
     (\<forall>h node. fileHandlerToFileHandlerSm g h = Some node \<longleftrightarrow>
                fileHandlerSmToFileHandler g node = Some h) \<and>
     (\<forall>h node. fileHandlerToFileHandlerSm g h = Some node \<longrightarrow> h \<noteq> 0 \<and> node \<noteq> 0) \<and>
     dom (heap g) = dom (fileHandlerSmToFileHandler g)"

text \<open>
  Every record sits under its own key, carries its key as descriptor number and points
  back to the node that holds it.
\<close>

definition descriptor_inv :: "eos_state \<Rightarrow> bool" where
  "descriptor_inv g \<longleftrightarrow>
     (\<forall>node hs n d. heap g node = Some hs \<longrightarrow> fileDescriptorSm hs n = Some d \<longrightarrow>
        fd d = n \<and> descriptor (fileDescriptor d) = n \<and> fileHandlerSm d = node)"

text \<open>Every record that a node holds has at least one interest flag set.\<close>

definition interest_inv :: "eos_state \<Rightarrow> bool" where
  "interest_inv g \<longleftrightarrow>
     (\<forall>node hs n d. heap g node = Some hs \<longrightarrow> fileDescriptorSm hs n = Some d \<longrightarrow>
        notifyOnReadable (fileDescriptor d) \<or> notifyOnWritable (fileDescriptor d) \<or>
        notifyOnException (fileDescriptor d))"

definition consistent :: "eos_state \<Rightarrow> bool" where
  "consistent g \<longleftrightarrow> registry_inv g \<and> descriptor_inv g \<and> interest_inv g"

section \<open>What a setter does to one record\<close>

text \<open>
  The record that \<^verbatim>\<open>get_file_descriptor_sm\<close> creates when the node has none for \<open>n\<close>,
  before the descriptor number is stored.
\<close>

definition fresh_record :: "fd_t \<Rightarrow> FileHandlerSm_ptr \<Rightarrow> FileDescriptorSm" where
  "fresh_record n node =
     \<lparr>fd = n, fileDescriptor = FileDescriptorIs ''FileDescriptor'', fileHandlerSm = node\<rparr>"

fun with_flag :: "interest_kind \<Rightarrow> bool \<Rightarrow> FileDescriptor \<Rightarrow> FileDescriptor" where
  "with_flag Readable v x = x\<lparr>notifyOnReadable := v\<rparr>"
| "with_flag Writable v x = x\<lparr>notifyOnWritable := v\<rparr>"
| "with_flag ExceptionPending v x = x\<lparr>notifyOnException := v\<rparr>"

definition quiet :: "FileDescriptor \<Rightarrow> bool" where
  "quiet x \<longleftrightarrow> \<not> notifyOnReadable x \<and> \<not> notifyOnWritable x \<and> \<not> notifyOnException x"

text \<open>
  The entry for \<open>n\<close> after a setter of kind \<open>k\<close> with value \<open>v\<close>, from the entry before:
  get or create, store the descriptor number, set the flag, and drop the record when the
  value is false and no flag is left.
\<close>

definition entry_after ::
  "interest_kind \<Rightarrow> bool \<Rightarrow> fd_t \<Rightarrow> FileHandlerSm_ptr \<Rightarrow> FileDescriptorSm option \<Rightarrow>
     FileDescriptorSm option" where
  "entry_after k v n node old =
     (let d0 = (case old of None \<Rightarrow> fresh_record n node | Some d \<Rightarrow> d);
          d1 = d0\<lparr>fileDescriptor := with_flag k v ((fileDescriptor d0)\<lparr>descriptor := n\<rparr>)\<rparr>
      in if \<not> v \<and> quiet (fileDescriptor d1) then None else Some d1)"

section \<open>The manager getters of \<^verbatim>\<open>sdk\<close>\<close>

text \<open>
  The \<^verbatim>\<open>sdk\<close> object: one pointer per manager (the member \<^verbatim>\<open>acl_mgr_\<close> is the field \<open>acl_mgr\<close>, and so
  on), null (0) until the manager is made.
\<close>

type_synonym mgr_ptr = nat

record sdk =
  acl_mgr :: mgr_ptr
  agent_mgr :: mgr_ptr
  decap_group_mgr :: mgr_ptr
  directflow_mgr :: mgr_ptr
  eth_intf_mgr :: mgr_ptr
  eth_phy_intf_mgr :: mgr_ptr
  fib_mgr :: mgr_ptr
  intf_mgr :: mgr_ptr
  ip_route_mgr :: mgr_ptr
  mac_table_mgr :: mgr_ptr
  mlag_mgr :: mgr_ptr
  mount_mgr :: mgr_ptr
  mpls_route_mgr :: mgr_ptr
  neighbor_table_mgr :: mgr_ptr
  nexthop_group_mgr :: mgr_ptr
  policy_map_mgr :: mgr_ptr
  system_mgr :: mgr_ptr

text \<open>
  Each getter below takes the initialiser it calls (\<^verbatim>\<open>init_acl_mgr()\<close> and so on, which
  are defined outside the sources) as its first argument, and returns the \<^verbatim>\<open>sdk\<close> object
  after the call, the pointer returned, and the number of times it invoked the initialiser.
\<close>

definition get_acl_mgr :: "(sdk \<Rightarrow> sdk) \<Rightarrow> sdk \<Rightarrow> sdk \<times> mgr_ptr \<times> nat" where
  "get_acl_mgr init_acl_mgr s =
     (if acl_mgr s = 0 then (let s1 = init_acl_mgr s in (s1, acl_mgr s1, 1))
      else (s, acl_mgr s, 0))"

definition get_agent_mgr :: "(sdk \<Rightarrow> sdk) \<Rightarrow> sdk \<Rightarrow> sdk \<times> mgr_ptr \<times> nat" where
  "get_agent_mgr init_agent_mgr s =
     (if agent_mgr s = 0 then (let s1 = init_agent_mgr s in (s1, agent_mgr s1, 1))
      else (s, agent_mgr s, 0))"

definition get_decap_group_mgr :: "(sdk \<Rightarrow> sdk) \<Rightarrow> sdk \<Rightarrow> sdk \<times> mgr_ptr \<times> nat" where
  "get_decap_group_mgr init_decap_group_mgr s =
     (if decap_group_mgr s = 0
      then (let s1 = init_decap_group_mgr s in (s1, decap_group_mgr s1, 1))
      else (s, decap_group_mgr s, 0))"

definition get_directflow_mgr :: "(sdk \<Rightarrow> sdk) \<Rightarrow> sdk \<Rightarrow> sdk \<times> mgr_ptr \<times> nat" where
  "get_directflow_mgr init_directflow_mgr s =
     (if directflow_mgr s = 0
      then (let s1 = init_directflow_mgr s in (s1, directflow_mgr s1, 1))
      else (s, directflow_mgr s, 0))"

definition get_eth_intf_mgr :: "(sdk \<Rightarrow> sdk) \<Rightarrow> sdk \<Rightarrow> sdk \<times> mgr_ptr \<times> nat" where
  "get_eth_intf_mgr init_eth_intf_mgr s =
     (if eth_intf_mgr s = 0 then (let s1 = init_eth_intf_mgr s in (s1, eth_intf_mgr s1, 1))
      else (s, eth_intf_mgr s, 0))"

definition get_eth_phy_intf_mgr :: "(sdk \<Rightarrow> sdk) \<Rightarrow> sdk \<Rightarrow> sdk \<times> mgr_ptr \<times> nat" where
  "get_eth_phy_intf_mgr init_eth_phy_intf_mgr s =
     (if eth_phy_intf_mgr s = 0
      then (let s1 = init_eth_phy_intf_mgr s in (s1, eth_phy_intf_mgr s1, 1))
      else (s, eth_phy_intf_mgr s, 0))"

definition get_fib_mgr :: "(sdk \<Rightarrow> sdk) \<Rightarrow> sdk \<Rightarrow> sdk \<times> mgr_ptr \<times> nat" where
  "get_fib_mgr init_fib_mgr s =
     (if fib_mgr s = 0 then (let s1 = init_fib_mgr s in (s1, fib_mgr s1, 1))
      else (s, fib_mgr s, 0))"

definition get_intf_mgr :: "(sdk \<Rightarrow> sdk) \<Rightarrow> sdk \<Rightarrow> sdk \<times> mgr_ptr \<times> nat" where
  "get_intf_mgr init_intf_mgr s =
     (if intf_mgr s = 0 then (let s1 = init_intf_mgr s in (s1, intf_mgr s1, 1))
      else (s, intf_mgr s, 0))"

definition get_ip_route_mgr :: "(sdk \<Rightarrow> sdk) \<Rightarrow> sdk \<Rightarrow> sdk \<times> mgr_ptr \<times> nat" where
  "get_ip_route_mgr init_ip_route_mgr s =
     (if ip_route_mgr s = 0 then (let s1 = init_ip_route_mgr s in (s1, ip_route_mgr s1, 1))
      else (s, ip_route_mgr s, 0))"

definition get_mac_table_mgr :: "(sdk \<Rightarrow> sdk) \<Rightarrow> sdk \<Rightarrow> sdk \<times> mgr_ptr \<times> nat" where
  "get_mac_table_mgr init_mac_table_mgr s =
     (if mac_table_mgr s = 0
      then (let s1 = init_mac_table_mgr s in (s1, mac_table_mgr s1, 1))
      else (s, mac_table_mgr s, 0))"

definition get_mlag_mgr :: "(sdk \<Rightarrow> sdk) \<Rightarrow> sdk \<Rightarrow> sdk \<times> mgr_ptr \<times> nat" where
  "get_mlag_mgr init_mlag_mgr s =
     (if mlag_mgr s = 0 then (let s1 = init_mlag_mgr s in (s1, mlag_mgr s1, 1))
      else (s, mlag_mgr s, 0))"

definition get_mount_mgr :: "(sdk \<Rightarrow> sdk) \<Rightarrow> sdk \<Rightarrow> sdk \<times> mgr_ptr \<times> nat" where
  "get_mount_mgr init_mount_mgr s =
     (if mount_mgr s = 0 then (let s1 = init_mount_mgr s in (s1, mount_mgr s1, 1))
      else (s, mount_mgr s, 0))"

definition get_mpls_route_mgr :: "(sdk \<Rightarrow> sdk) \<Rightarrow> sdk \<Rightarrow> sdk \<times> mgr_ptr \<times> nat" where
  "get_mpls_route_mgr init_mpls_route_mgr s =
     (if mpls_route_mgr s = 0
      then (let s1 = init_mpls_route_mgr s in (s1, mpls_route_mgr s1, 1))
      else (s, mpls_route_mgr s, 0))"

definition get_neighbor_table_mgr :: "(sdk \<Rightarrow> sdk) \<Rightarrow> sdk \<Rightarrow> sdk \<times> mgr_ptr \<times> nat" where
  "get_neighbor_table_mgr init_neighbor_table_mgr s =
     (if neighbor_table_mgr s = 0
      then (let s1 = init_neighbor_table_mgr s in (s1, neighbor_table_mgr s1, 1))
      else (s, neighbor_table_mgr s, 0))"

definition get_nexthop_group_mgr :: "(sdk \<Rightarrow> sdk) \<Rightarrow> sdk \<Rightarrow> sdk \<times> mgr_ptr \<times> nat" where
  "get_nexthop_group_mgr init_nexthop_group_mgr s =
     (if nexthop_group_mgr s = 0
      then (let s1 = init_nexthop_group_mgr s in (s1, nexthop_group_mgr s1, 1))
      else (s, nexthop_group_mgr s, 0))"

definition get_policy_map_mgr :: "(sdk \<Rightarrow> sdk) \<Rightarrow> sdk \<Rightarrow> sdk \<times> mgr_ptr \<times> nat" where
  "get_policy_map_mgr init_policy_map_mgr s =
     (if policy_map_mgr s = 0
      then (let s1 = init_policy_map_mgr s in (s1, policy_map_mgr s1, 1))
      else (s, policy_map_mgr s, 0))"

definition get_system_mgr :: "(sdk \<Rightarrow> sdk) \<Rightarrow> sdk \<Rightarrow> sdk \<times> mgr_ptr \<times> nat" where
  "get_system_mgr init_system_mgr s =
     (if system_mgr s = 0 then (let s1 = init_system_mgr s in (s1, system_mgr s1, 1))
      else (s, system_mgr s, 0))"

text \<open>The seventeen getters and their fields, by manager.\<close>

datatype mgr =
    Acl_mgr | Agent_mgr | Decap_group_mgr | Directflow_mgr | Eth_intf_mgr
  | Eth_phy_intf_mgr | Fib_mgr | Intf_mgr | Ip_route_mgr | Mac_table_mgr | Mlag_mgr
  | Mount_mgr | Mpls_route_mgr | Neighbor_table_mgr | Nexthop_group_mgr | Policy_map_mgr
  | System_mgr

fun mgr_field :: "mgr \<Rightarrow> sdk \<Rightarrow> mgr_ptr" where
  "mgr_field Acl_mgr = acl_mgr"
| "mgr_field Agent_mgr = agent_mgr"
| "mgr_field Decap_group_mgr = decap_group_mgr"
| "mgr_field Directflow_mgr = directflow_mgr"
| "mgr_field Eth_intf_mgr = eth_intf_mgr"
| "mgr_field Eth_phy_intf_mgr = eth_phy_intf_mgr"
| "mgr_field Fib_mgr = fib_mgr"
| "mgr_field Intf_mgr = intf_mgr"
| "mgr_field Ip_route_mgr = ip_route_mgr"
| "mgr_field Mac_table_mgr = mac_table_mgr"
| "mgr_field Mlag_mgr = mlag_mgr"
| "mgr_field Mount_mgr = mount_mgr"
| "mgr_field Mpls_route_mgr = mpls_route_mgr"
| "mgr_field Neighbor_table_mgr = neighbor_table_mgr"
| "mgr_field Nexthop_group_mgr = nexthop_group_mgr"
| "mgr_field Policy_map_mgr = policy_map_mgr"
| "mgr_field System_mgr = system_mgr"

fun get_mgr :: "mgr \<Rightarrow> (sdk \<Rightarrow> sdk) \<Rightarrow> sdk \<Rightarrow> sdk \<times> mgr_ptr \<times> nat" where
  "get_mgr Acl_mgr = get_acl_mgr"
| "get_mgr Agent_mgr = get_agent_mgr"
| "get_mgr Decap_group_mgr = get_decap_group_mgr"
| "get_mgr Directflow_mgr = get_directflow_mgr"
| "get_mgr Eth_intf_mgr = get_eth_intf_mgr"
| "get_mgr Eth_phy_intf_mgr = get_eth_phy_intf_mgr"
| "get_mgr Fib_mgr = get_fib_mgr"
| "get_mgr Intf_mgr = get_intf_mgr"
| "get_mgr Ip_route_mgr = get_ip_route_mgr"
| "get_mgr Mac_table_mgr = get_mac_table_mgr"
| "get_mgr Mlag_mgr = get_mlag_mgr"
| "get_mgr Mount_mgr = get_mount_mgr"
| "get_mgr Mpls_route_mgr = get_mpls_route_mgr"
| "get_mgr Neighbor_table_mgr = get_neighbor_table_mgr"
| "get_mgr Nexthop_group_mgr = get_nexthop_group_mgr"
| "get_mgr Policy_map_mgr = get_policy_map_mgr"
| "get_mgr System_mgr = get_system_mgr"

text \<open>
  \<open>k\<close> calls of one getter in a row: the object after the last call, and what each call
  returned and how often it invoked the initialiser.
\<close>

fun get_mgr_times ::
  "nat \<Rightarrow> mgr \<Rightarrow> (sdk \<Rightarrow> sdk) \<Rightarrow> sdk \<Rightarrow> sdk \<times> (mgr_ptr \<times> nat) list" where
  "get_mgr_times 0 m init s = (s, [])"
| "get_mgr_times (Suc k) m init s =
     (case get_mgr m init s of
        (s1, p, c) \<Rightarrow> (case get_mgr_times k m init s1 of (s2, rs) \<Rightarrow> (s2, (p, c) # rs)))"

text \<open>
  A run of getter calls on one object, for the managers \<open>ms\<close> in this order, where
  \<open>inits m\<close> is the initialiser of manager \<open>m\<close>: the object after the last call, and for
  each call its manager, the pointer returned and how often it invoked the initialiser.
\<close>

fun get_mgr_seq ::
  "(mgr \<Rightarrow> sdk \<Rightarrow> sdk) \<Rightarrow> mgr list \<Rightarrow> sdk \<Rightarrow> sdk \<times> (mgr \<times> mgr_ptr \<times> nat) list" where
  "get_mgr_seq inits [] s = (s, [])"
| "get_mgr_seq inits (m # ms) s =
     (case get_mgr m (inits m) s of
        (s1, p, c) \<Rightarrow>
          (case get_mgr_seq inits ms s1 of (s2, rs) \<Rightarrow> (s2, (m, p, c) # rs)))"

text \<open>The node addresses that the allocator hands out during a run.\<close>

fun handed_out :: "event list \<Rightarrow> FileHandlerSm_ptr set" where
  "handed_out [] = {}"
| "handed_out (Construct h node # es) = insert node (handed_out es)"
| "handed_out (e # es) = handed_out es"

section \<open>Sample states\<close>

text \<open>
  Handler 100 with node 10, and the records it can hold for descriptor 7: read interest
  only, read and write interest, write interest only.
\<close>

definition reader_record :: FileDescriptorSm where
  "reader_record =
     \<lparr>fd = 7,
      fileDescriptor = \<lparr>descriptor = 7, notifyOnReadable = True, notifyOnWritable = False,
                        notifyOnException = False\<rparr>,
      fileHandlerSm = 10\<rparr>"

definition reader_writer_record :: FileDescriptorSm where
  "reader_writer_record =
     \<lparr>fd = 7,
      fileDescriptor = \<lparr>descriptor = 7, notifyOnReadable = True, notifyOnWritable = True,
                        notifyOnException = False\<rparr>,
      fileHandlerSm = 10\<rparr>"

definition writer_record :: FileDescriptorSm where
  "writer_record =
     \<lparr>fd = 7,
      fileDescriptor = \<lparr>descriptor = 7, notifyOnReadable = False, notifyOnWritable = True,
                        notifyOnException = False\<rparr>,
      fileHandlerSm = 10\<rparr>"

text \<open>The state with the single handler 100, its node 10 holding the records \<open>ds\<close>.\<close>

definition one_handler :: "(fd_t \<rightharpoonup> FileDescriptorSm) \<Rightarrow> eos_state" where
  "one_handler ds =
     \<lparr>fileHandlerToFileHandlerSm = [100 \<mapsto> 10],
      fileHandlerSmToFileHandler = [10 \<mapsto> 100],
      heap = [10 \<mapsto> \<lparr>fileDescriptorSm = ds\<rparr>]\<rparr>"

text \<open>
  The state after handler 100 was destroyed and handler 200 was constructed, the allocator
  having handed out address 10 again.
\<close>

definition second_handler :: eos_state where
  "second_handler =
     \<lparr>fileHandlerToFileHandlerSm = [200 \<mapsto> 10],
      fileHandlerSmToFileHandler = [10 \<mapsto> 200],
      heap = [10 \<mapsto> \<lparr>fileDescriptorSm = Map.empty\<rparr>]\<rparr>"

text \<open>An \<^verbatim>\<open>sdk\<close> object none of whose managers has been made.\<close>

definition fresh_sdk :: sdk where
  "fresh_sdk =
     \<lparr>acl_mgr = 0, agent_mgr = 0, decap_group_mgr = 0, directflow_mgr = 0, eth_intf_mgr = 0,
      eth_phy_intf_mgr = 0, fib_mgr = 0, intf_mgr = 0, ip_route_mgr = 0, mac_table_mgr = 0,
      mlag_mgr = 0, mount_mgr = 0, mpls_route_mgr = 0, neighbor_table_mgr = 0,
      nexthop_group_mgr = 0, policy_map_mgr = 0, system_mgr = 0\<rparr>"

text \<open>
  Sample initialisers: each stores the address of its new manager in its own field and
  touches nothing else.
\<close>

fun sample_init :: "mgr \<Rightarrow> sdk \<Rightarrow> sdk" where
  "sample_init Acl_mgr s = s\<lparr>acl_mgr := 5\<rparr>"
| "sample_init Agent_mgr s = s\<lparr>agent_mgr := 7\<rparr>"
| "sample_init Decap_group_mgr s = s\<lparr>decap_group_mgr := 9\<rparr>"
| "sample_init Directflow_mgr s = s\<lparr>directflow_mgr := 11\<rparr>"
| "sample_init Eth_intf_mgr s = s\<lparr>eth_intf_mgr := 13\<rparr>"
| "sample_init Eth_phy_intf_mgr s = s\<lparr>eth_phy_intf_mgr := 15\<rparr>"
| "sample_init Fib_mgr s = s\<lparr>fib_mgr := 17\<rparr>"
| "sample_init Intf_mgr s = s\<lparr>intf_mgr := 19\<rparr>"
| "sample_init Ip_route_mgr s = s\<lparr>ip_route_mgr := 21\<rparr>"
| "sample_init Mac_table_mgr s = s\<lparr>mac_table_mgr := 23\<rparr>"
| "sample_init Mlag_mgr s = s\<lparr>mlag_mgr := 25\<rparr>"
| "sample_init Mount_mgr s = s\<lparr>mount_mgr := 27\<rparr>"
| "sample_init Mpls_route_mgr s = s\<lparr>mpls_route_mgr := 29\<rparr>"
| "sample_init Neighbor_table_mgr s = s\<lparr>neighbor_table_mgr := 31\<rparr>"
| "sample_init Nexthop_group_mgr s = s\<lparr>nexthop_group_mgr := 33\<rparr>"
| "sample_init Policy_map_mgr s = s\<lparr>policy_map_mgr := 35\<rparr>"
| "sample_init System_mgr s = s\<lparr>system_mgr := 37\<rparr>"

section \<open>Properties\<close>

lemma get_file_descriptor_sm_result:
  assumes "fileHandlerToFileHandlerSm g h = Some node" "node \<noteq> 0" "heap g node = Some hs"
  shows "get_file_descriptor_sm g h n =
    Inr (g\<lparr>heap := (heap g)(node \<mapsto> hs\<lparr>fileDescriptorSm := (fileDescriptorSm hs)
           (n \<mapsto> (let d0 = (case fileDescriptorSm hs n of None \<Rightarrow> fresh_record n node | Some d \<Rightarrow> d)
                   in d0\<lparr>fileDescriptor := (fileDescriptor d0)\<lparr>descriptor := n\<rparr>\<rparr>))\<rparr>)\<rparr>, (node, n))"
  using assms
  by (cases "fileDescriptorSm hs n")
     (simp_all add: get_file_descriptor_sm_def map_subscript_def fileDescriptorSmIs_def
        fdSm_modify_def fresh_record_def Let_def)

lemma set_interest_result:
  assumes "fileHandlerToFileHandlerSm g h = Some node" "node \<noteq> 0" "heap g node = Some hs"
    and "\<And>d. fileDescriptorSm hs n = Some d \<Longrightarrow> fileHandlerSm d = node"
  shows "set_interest k g h n v =
    Inr (g\<lparr>heap := (heap g)(node \<mapsto> hs\<lparr>fileDescriptorSm := (fileDescriptorSm hs)
           (n := entry_after k v n node (fileDescriptorSm hs n))\<rparr>)\<rparr>)"
proof (cases k)
  case Readable
  show ?thesis
    using assms(4) unfolding Readable
    by (cases "fileDescriptorSm hs n")
      (auto simp add: read_interest_is_def get_file_descriptor_sm_result[OF assms(1-3)]
        fdSm_modify_def fdSm_deref_def maybeCleanupAfterFileDescriptor_def
        fileDescriptorSmDel_def entry_after_def quiet_def fresh_record_def Let_def)
next
  case Writable
  show ?thesis
    using assms(4) unfolding Writable
    by (cases "fileDescriptorSm hs n")
      (auto simp add: write_interest_is_def get_file_descriptor_sm_result[OF assms(1-3)]
        fdSm_modify_def fdSm_deref_def maybeCleanupAfterFileDescriptor_def
        fileDescriptorSmDel_def entry_after_def quiet_def fresh_record_def Let_def)
next
  case ExceptionPending
  show ?thesis
    using assms(4) unfolding ExceptionPending
    by (cases "fileDescriptorSm hs n")
      (auto simp add: exception_interest_is_def get_file_descriptor_sm_result[OF assms(1-3)]
        fdSm_modify_def fdSm_deref_def maybeCleanupAfterFileDescriptor_def
        fileDescriptorSmDel_def entry_after_def quiet_def fresh_record_def Let_def)
qed

lemma set_interest_unregistered:
  "fileHandlerToFileHandlerSm g h = None \<Longrightarrow> set_interest k g h n v = Inl AssertionFailed"
  by (cases k)
     (simp_all add: read_interest_is_def write_interest_is_def exception_interest_is_def
        get_file_descriptor_sm_def map_subscript_def)

lemma registry_inv_node:
  assumes "registry_inv g" "fileHandlerToFileHandlerSm g h = Some node"
  shows "node \<noteq> 0" "h \<noteq> 0" "fileHandlerSmToFileHandler g node = Some h" "\<exists>hs. heap g node = Some hs"
proof -
  show "node \<noteq> 0" "h \<noteq> 0" using assms by (auto simp: registry_inv_def)
  show r: "fileHandlerSmToFileHandler g node = Some h" using assms by (auto simp: registry_inv_def)
  have "node \<in> dom (heap g)" using assms r unfolding registry_inv_def by blast
  then show "\<exists>hs. heap g node = Some hs" by blast
qed

lemma descriptor_inv_entry:
  "descriptor_inv g \<Longrightarrow> heap g node = Some hs \<Longrightarrow> fileDescriptorSm hs n = Some d \<Longrightarrow>
     fd d = n \<and> descriptor (fileDescriptor d) = n \<and> fileHandlerSm d = node"
  unfolding descriptor_inv_def by blast

text \<open>The state after a setter, for a registered handler in a consistent state.\<close>

lemma set_interest_registered:
  assumes "registry_inv g" "descriptor_inv g" "fileHandlerToFileHandlerSm g h = Some node"
    "heap g node = Some hs"
  shows "set_interest k g h n v =
    Inr (g\<lparr>heap := (heap g)(node \<mapsto> hs\<lparr>fileDescriptorSm := (fileDescriptorSm hs)
           (n := entry_after k v n node (fileDescriptorSm hs n))\<rparr>)\<rparr>)"
  by (rule set_interest_result[OF assms(3) registry_inv_node(1)[OF assms(1,3)] assms(4)])
     (use descriptor_inv_entry[OF assms(2,4)] in blast)

lemma entry_after_wf:
  assumes "entry_after k v n node old = Some d1"
    "\<And>d. old = Some d \<Longrightarrow> fd d = n \<and> fileHandlerSm d = node"
  shows "fd d1 = n \<and> descriptor (fileDescriptor d1) = n \<and> fileHandlerSm d1 = node"
  using assms
  by (cases k; cases old) (auto simp: entry_after_def fresh_record_def Let_def split: if_splits)

lemma entry_after_interest:
  assumes "entry_after k v n node old = Some d1"
    "\<And>d. old = Some d \<Longrightarrow> \<not> quiet (fileDescriptor d)"
  shows "\<not> quiet (fileDescriptor d1)"
  using assms
  by (cases k; cases old; cases v)
     (auto simp: entry_after_def fresh_record_def quiet_def Let_def split: if_splits)

lemma set_interest_preserves:
  assumes "registry_inv g" "descriptor_inv g" "set_interest k g h n v = Inr g1"
  shows "registry_inv g1" "descriptor_inv g1" "interest_inv g \<Longrightarrow> interest_inv g1"
    "fileHandlerToFileHandlerSm g1 = fileHandlerToFileHandlerSm g"
    "fileHandlerSmToFileHandler g1 = fileHandlerSmToFileHandler g"
proof -
  obtain node where node: "fileHandlerToFileHandlerSm g h = Some node"
    using assms(3) set_interest_unregistered[of g h k n v]
    by (cases "fileHandlerToFileHandlerSm g h") auto
  obtain hs where hs: "heap g node = Some hs"
    using registry_inv_node(4)[OF assms(1) node] by blast
  have g1: "g1 = g\<lparr>heap := (heap g)(node \<mapsto> hs\<lparr>fileDescriptorSm := (fileDescriptorSm hs)
           (n := entry_after k v n node (fileDescriptorSm hs n))\<rparr>)\<rparr>"
    using set_interest_registered[OF assms(1,2) node hs, of k n v] assms(3) by simp
  show "fileHandlerToFileHandlerSm g1 = fileHandlerToFileHandlerSm g"
    "fileHandlerSmToFileHandler g1 = fileHandlerSmToFileHandler g"
    by (simp_all add: g1)
  have "dom (heap g1) = dom (heap g)" using hs by (auto simp: g1)
  then show "registry_inv g1" using assms(1) by (simp add: registry_inv_def g1)
  show "descriptor_inv g1"
    unfolding descriptor_inv_def
  proof (intro allI impI)
    fix node' hs' n' d'
    assume a: "heap g1 node' = Some hs'" "fileDescriptorSm hs' n' = Some d'"
    show "fd d' = n' \<and> descriptor (fileDescriptor d') = n' \<and> fileHandlerSm d' = node'"
    proof (cases "node' = node \<and> n' = n")
      case True
      then have "entry_after k v n node (fileDescriptorSm hs n) = Some d'"
        using a by (auto simp: g1)
      from entry_after_wf[OF this] descriptor_inv_entry[OF assms(2) hs] True
      show ?thesis by blast
    next
      case False
      then have "\<exists>hs0. heap g node' = Some hs0 \<and> fileDescriptorSm hs0 n' = Some d'"
        using a hs by (auto simp: g1 split: if_splits)
      then show ?thesis
        using assms(2) unfolding descriptor_inv_def by blast
    qed
  qed
  show "interest_inv g1" if i: "interest_inv g"
    unfolding interest_inv_def
  proof (intro allI impI)
    fix node' hs' n' d'
    assume a: "heap g1 node' = Some hs'" "fileDescriptorSm hs' n' = Some d'"
    have old: "\<And>m d. fileDescriptorSm hs m = Some d \<Longrightarrow> \<not> quiet (fileDescriptor d)"
      using i hs unfolding interest_inv_def quiet_def by blast
    show "notifyOnReadable (fileDescriptor d') \<or> notifyOnWritable (fileDescriptor d') \<or>
        notifyOnException (fileDescriptor d')"
    proof (cases "node' = node \<and> n' = n")
      case True
      then have "entry_after k v n node (fileDescriptorSm hs n) = Some d'"
        using a by (auto simp: g1)
      from entry_after_interest[OF this] old
      show ?thesis by (auto simp: quiet_def)
    next
      case False
      then have "\<exists>hs0. heap g node' = Some hs0 \<and> fileDescriptorSm hs0 n' = Some d'"
        using a hs by (auto simp: g1 split: if_splits)
      then show ?thesis
        using i unfolding interest_inv_def by blast
    qed
  qed
qed

lemma ctor_unregistered:
  "fileHandlerToFileHandlerSm g h = None \<Longrightarrow>
     file_handler_ctor g h node =
       g\<lparr>heap := (heap g)(node \<mapsto> FileHandlerSmIs),
         fileHandlerSmToFileHandler := (fileHandlerSmToFileHandler g)(node \<mapsto> h),
         fileHandlerToFileHandlerSm := (fileHandlerToFileHandlerSm g)(h \<mapsto> node)\<rparr>"
  by (simp add: file_handler_ctor_def map_subscript_def Let_def)

lemma ctor_preserves:
  assumes "registry_inv g" "h \<noteq> 0" "fileHandlerToFileHandlerSm g h = None" "node \<noteq> 0"
    "heap g node = None"
  shows "registry_inv (file_handler_ctor g h node)"
    and "descriptor_inv g \<Longrightarrow> descriptor_inv (file_handler_ctor g h node)"
    and "interest_inv g \<Longrightarrow> interest_inv (file_handler_ctor g h node)"
    and "dom (fileHandlerToFileHandlerSm (file_handler_ctor g h node)) =
           insert h (dom (fileHandlerToFileHandlerSm g))"
proof -
  have fresh: "fileHandlerSmToFileHandler g node = None"
    using assms(1,5) unfolding registry_inv_def by blast
  have inj: "\<And>h'. fileHandlerToFileHandlerSm g h' \<noteq> Some node"
    using assms(1) fresh unfolding registry_inv_def by auto
  have bwd: "\<And>node'. fileHandlerSmToFileHandler g node' \<noteq> Some h"
    using assms(1,3) unfolding registry_inv_def by (metis option.distinct(1))
  show "registry_inv (file_handler_ctor g h node)"
    using assms inj bwd unfolding registry_inv_def ctor_unregistered[OF assms(3)]
    by auto
  show "descriptor_inv (file_handler_ctor g h node)" if "descriptor_inv g"
    using that unfolding descriptor_inv_def ctor_unregistered[OF assms(3)]
    by (auto simp: FileHandlerSmIs_def split: if_splits)
  show "interest_inv (file_handler_ctor g h node)" if "interest_inv g"
    using that unfolding interest_inv_def ctor_unregistered[OF assms(3)]
    by (auto simp: FileHandlerSmIs_def split: if_splits)
  show "dom (fileHandlerToFileHandlerSm (file_handler_ctor g h node)) =
           insert h (dom (fileHandlerToFileHandlerSm g))"
    by (simp add: ctor_unregistered[OF assms(3)])
qed

lemma dtor_registered:
  assumes "fileHandlerToFileHandlerSm g h = Some node" "node \<noteq> 0"
  shows "file_handler_dtor g h =
     g\<lparr>fileHandlerToFileHandlerSm := (fileHandlerToFileHandlerSm g)(h := None),
       fileHandlerSmToFileHandler := (fileHandlerSmToFileHandler g)(node := None),
       heap := (heap g)(node := None)\<rparr>"
  using assms by (simp add: file_handler_dtor_def map_subscript_def map_erase_def)

lemma dtor_preserves:
  assumes "registry_inv g" "fileHandlerToFileHandlerSm g h = Some node"
  shows "registry_inv (file_handler_dtor g h)"
    and "descriptor_inv g \<Longrightarrow> descriptor_inv (file_handler_dtor g h)"
    and "interest_inv g \<Longrightarrow> interest_inv (file_handler_dtor g h)"
    and "dom (fileHandlerToFileHandlerSm (file_handler_dtor g h)) =
           dom (fileHandlerToFileHandlerSm g) - {h}"
proof -
  note d = dtor_registered[OF assms(2) registry_inv_node(1)[OF assms]]
  have inj: "\<And>h'. fileHandlerToFileHandlerSm g h' = Some node \<Longrightarrow> h' = h"
    using assms unfolding registry_inv_def by (metis option.inject)
  have bwd: "\<And>node'. fileHandlerSmToFileHandler g node' = Some h \<Longrightarrow> node' = node"
    using assms unfolding registry_inv_def by (metis option.inject)
  have iff: "\<And>h' node'. fileHandlerToFileHandlerSm g h' = Some node' \<longleftrightarrow>
                fileHandlerSmToFileHandler g node' = Some h'"
    using assms(1) unfolding registry_inv_def by blast
  have nz: "\<And>h' node'. fileHandlerToFileHandlerSm g h' = Some node' \<Longrightarrow> h' \<noteq> 0 \<and> node' \<noteq> 0"
    using assms(1) unfolding registry_inv_def by blast
  have dm: "dom (heap g) = dom (fileHandlerSmToFileHandler g)"
    using assms(1) unfolding registry_inv_def by blast
  show "registry_inv (file_handler_dtor g h)"
    unfolding registry_inv_def d
    using inj bwd iff nz dm by (auto split: if_splits)
  show "descriptor_inv (file_handler_dtor g h)" if "descriptor_inv g"
    using that unfolding descriptor_inv_def d by (auto split: if_splits)
  show "interest_inv (file_handler_dtor g h)" if "interest_inv g"
    using that unfolding interest_inv_def d by (auto split: if_splits)
  show "dom (fileHandlerToFileHandlerSm (file_handler_dtor g h)) =
           dom (fileHandlerToFileHandlerSm g) - {h}"
    unfolding d by auto
qed

lemma dispatch_result:
  "dispatch k g d =
     (case fileHandlerSmToFileHandler g (fileHandlerSm d) of
        None \<Rightarrow> Inl AssertionFailed
      | Some fh \<Rightarrow> if fh = 0 then Inl AssertionFailed else Inr (g, callback_of k fh (fd d)))"
  by (cases k)
     (simp_all add: handleReadable_def handleWritable_def handleExceptionPending_def
        map_subscript_def split: option.split)

lemma consistent_initial: "consistent initial_state"
  by (simp add: consistent_def registry_inv_def descriptor_inv_def interest_inv_def
      initial_state_def)

lemma step_preserves:
  assumes "consistent g" "admissible_event g e" "step g e = Inr g1"
  shows "consistent g1 \<and>
         dom (fileHandlerToFileHandlerSm g1) = live_after (dom (fileHandlerToFileHandlerSm g)) [e]"
proof (cases e)
  case (Construct h node)
  then show ?thesis
    using assms ctor_preserves[of g h node] by (auto simp: consistent_def)
next
  case (Destruct h)
  then obtain node where "fileHandlerToFileHandlerSm g h = Some node"
    using assms(2) by auto
  then show ?thesis
    using assms Destruct dtor_preserves[of g h node] by (auto simp: consistent_def)
next
  case (SetInterest k h n v)
  then show ?thesis
    using assms set_interest_preserves[of g k h n v g1] by (auto simp: consistent_def)
next
  case (Deliver k node n)
  then have "g1 = g"
    using assms(3)
    by (auto simp: dispatch_result split: option.splits if_splits)
  then show ?thesis using assms(1) Deliver by simp
qed

lemma live_after_append: "live_after L (es @ es') = live_after (live_after L es) es'"
  by (induction L es rule: live_after.induct) simp_all

lemma run_preserves:
  "consistent g \<Longrightarrow> admissible g es \<Longrightarrow> run g es = Inr g1 \<Longrightarrow>
     consistent g1 \<and>
     dom (fileHandlerToFileHandlerSm g1) = live_after (dom (fileHandlerToFileHandlerSm g)) es"
proof (induction es arbitrary: g)
  case Nil
  then show ?case by simp
next
  case (Cons e es)
  from Cons.prems(3) obtain g' where s: "step g e = Inr g'" and r: "run g' es = Inr g1"
    by (auto split: sum.splits)
  from Cons.prems(2) s have ae: "admissible_event g e" and ad: "admissible g' es"
    by auto
  from step_preserves[OF Cons.prems(1) ae s]
  have c: "consistent g'"
    and l: "dom (fileHandlerToFileHandlerSm g') = live_after (dom (fileHandlerToFileHandlerSm g)) [e]"
    by auto
  from Cons.IH[OF c ad r] l live_after_append[of "dom (fileHandlerToFileHandlerSm g)" "[e]" es]
  show ?case by simp
qed

lemma get_mgr_unfold:
  "get_mgr m init s =
     (if mgr_field m s = 0 then (init s, mgr_field m (init s), 1) else (s, mgr_field m s, 0))"
  by (cases m)
     (simp_all add: get_acl_mgr_def get_agent_mgr_def get_decap_group_mgr_def
        get_directflow_mgr_def get_eth_intf_mgr_def get_eth_phy_intf_mgr_def get_fib_mgr_def
        get_intf_mgr_def get_ip_route_mgr_def get_mac_table_mgr_def get_mlag_mgr_def
        get_mount_mgr_def get_mpls_route_mgr_def get_neighbor_table_mgr_def
        get_nexthop_group_mgr_def get_policy_map_mgr_def get_system_mgr_def Let_def)

lemma get_mgr_times_initialised:
  "mgr_field m s \<noteq> 0 \<Longrightarrow> get_mgr_times k m init s = (s, replicate k (mgr_field m s, 0))"
  by (induction k) (simp_all add: get_mgr_unfold)

lemma get_mgr_seq_initialised:
  assumes "mgr_field m s \<noteq> 0"
    and "\<forall>m' \<in> set ms. m' \<noteq> m \<longrightarrow> (\<forall>t. mgr_field m (inits m' t) = mgr_field m t)"
    and "get_mgr_seq inits ms s = (s2, rs)"
  shows "mgr_field m s2 = mgr_field m s \<and> map fst rs = ms \<and>
         (\<forall>(m', q, n) \<in> set rs. m' = m \<longrightarrow> q = mgr_field m s \<and> n = 0) \<and>
         (set ms \<subseteq> {m} \<longrightarrow> s2 = s)"
  using assms
proof (induction ms arbitrary: s s2 rs)
  case Nil
  then show ?case by simp
next
  case (Cons a ms)
  obtain s1 p c where g: "get_mgr a (inits a) s = (s1, p, c)"
    by (cases "get_mgr a (inits a) s") auto
  obtain s3 rs3 where r: "get_mgr_seq inits ms s1 = (s3, rs3)"
    by (cases "get_mgr_seq inits ms s1") auto
  from Cons.prems(3) g r have eq: "s2 = s3" "rs = (a, p, c) # rs3" by auto
  have keep: "mgr_field m s1 = mgr_field m s"
  proof (cases "a = m")
    case True
    then show ?thesis using g Cons.prems(1) by (auto simp: get_mgr_unfold)
  next
    case False
    then have "\<forall>t. mgr_field m (inits a t) = mgr_field m t" using Cons.prems(2) by simp
    then show ?thesis using g by (auto simp: get_mgr_unfold split: if_splits)
  qed
  have own: "a = m \<Longrightarrow> s1 = s \<and> p = mgr_field m s \<and> c = 0"
    using g Cons.prems(1) by (auto simp: get_mgr_unfold)
  have fr: "\<forall>m' \<in> set ms. m' \<noteq> m \<longrightarrow> (\<forall>t. mgr_field m (inits m' t) = mgr_field m t)"
    using Cons.prems(2) by simp
  have nz: "mgr_field m s1 \<noteq> 0" using keep Cons.prems(1) by simp
  from Cons.IH[OF nz fr r] keep own eq show ?case by auto
qed

text \<open>
  Claim C10.  For each of the seventeen getters, with \<open>inits m\<close> the initialiser of manager
  \<open>m\<close>: suppose the initialiser of \<open>m\<close> leaves the field of \<open>m\<close> non-null.  The first call of
  the getter of \<open>m\<close> on the object \<open>s\<close> invokes the initialiser exactly once when the field
  is null, and then the object is the one the initialiser made; it invokes no initialiser
  and leaves the object as it is otherwise.  In both cases it returns the field of the
  resulting object, which is non-null.  In every later run \<open>ms\<close> of getter calls on that
  object, in which the initialisers of the other managers called leave the field of \<open>m\<close>
  alone, every call of the getter of \<open>m\<close> returns that same pointer and invokes no
  initialiser, so the initialiser of \<open>m\<close> runs at most once.  Calls of the getter of \<open>m\<close>
  alone, any number of them, also leave the object unchanged.
\<close>

theorem sdk_getter_initialises_once:
  assumes "mgr_field m (inits m s) \<noteq> 0"
    and "\<forall>m' \<in> set ms. m' \<noteq> m \<longrightarrow> (\<forall>t. mgr_field m (inits m' t) = mgr_field m t)"
    and "get_mgr m (inits m) s = (s1, p, c)"
    and "get_mgr_seq inits ms s1 = (s2, rs)"
  shows "(if mgr_field m s = 0 then s1 = inits m s \<and> c = 1 else s1 = s \<and> c = 0) \<and>
         p = mgr_field m s1 \<and> p \<noteq> 0 \<and>
         map fst rs = ms \<and>
         (\<forall>(m', q, n) \<in> set rs. m' = m \<longrightarrow> q = p \<and> n = 0) \<and>
         mgr_field m s2 = p \<and>
         (set ms \<subseteq> {m} \<longrightarrow> s2 = s1) \<and>
         (\<forall>k. get_mgr_times k m (inits m) s1 = (s1, replicate k (p, 0)))"
proof -
  have first: "if mgr_field m s = 0 then s1 = inits m s \<and> c = 1 else s1 = s \<and> c = 0"
    using assms(3) by (auto simp: get_mgr_unfold split: if_splits)
  have p: "p = mgr_field m s1"
    using assms(3) by (auto simp: get_mgr_unfold split: if_splits)
  have nz: "mgr_field m s1 \<noteq> 0"
    using assms(1,3) by (auto simp: get_mgr_unfold split: if_splits)
  from get_mgr_seq_initialised[OF nz assms(2,4)]
  have later: "mgr_field m s2 = p" "map fst rs = ms"
    "\<forall>(m', q, n) \<in> set rs. m' = m \<longrightarrow> q = p \<and> n = 0" "set ms \<subseteq> {m} \<longrightarrow> s2 = s1"
    using p by simp_all
  have times: "\<forall>k. get_mgr_times k m (inits m) s1 = (s1, replicate k (p, 0))"
    using get_mgr_times_initialised[OF nz] p by simp
  show ?thesis using first p nz later times by simp
qed

lemma descriptors_of_registered:
  "fileHandlerToFileHandlerSm g h = Some node \<Longrightarrow> heap g node = Some hs \<Longrightarrow>
     descriptors_of g h = fileDescriptorSm hs"
  by (simp add: descriptors_of_def)

lemma descriptors_of_SomeD:
  assumes "descriptors_of g h n = Some d"
  obtains node hs where "fileHandlerToFileHandlerSm g h = Some node" "heap g node = Some hs"
    "fileDescriptorSm hs n = Some d"
  using assms by (auto simp: descriptors_of_def split: option.splits)

lemma descriptors_of_heap_update:
  "fileHandlerToFileHandlerSm g h = Some node \<Longrightarrow>
     descriptors_of (g\<lparr>heap := (heap g)(node \<mapsto> hs1)\<rparr>) h = fileDescriptorSm hs1"
  by (simp add: descriptors_of_def)

lemma descriptors_of_heap_update_other:
  "fileHandlerToFileHandlerSm g h \<noteq> Some node \<Longrightarrow>
     descriptors_of (g\<lparr>heap := (heap g)(node \<mapsto> hs1)\<rparr>) h = descriptors_of g h"
  by (auto simp: descriptors_of_def split: option.splits)

lemma with_flag_flag [simp]:
  "flag j (with_flag k v x) = (if j = k then v else flag j x)"
  by (cases j; cases k) simp_all

lemma with_flag_descriptor [simp]: "descriptor (with_flag k v x) = descriptor x"
  by (cases k) simp_all

lemma with_flag_same: "flag k x = v \<Longrightarrow> with_flag k v x = x"
  by (cases k) auto

lemma with_flag_idem [simp]: "with_flag k v (with_flag k v x) = with_flag k v x"
  by (cases k) simp_all

lemma quiet_flag: "quiet x \<longleftrightarrow> (\<forall>j. \<not> flag j x)"
proof
  assume "quiet x"
  then show "\<forall>j. \<not> flag j x"
    by (auto simp: quiet_def) (case_tac j; simp)
next
  assume a: "\<forall>j. \<not> flag j x"
  from a[rule_format, of Readable] a[rule_format, of Writable] a[rule_format, of ExceptionPending]
  show "quiet x" by (simp add: quiet_def)
qed

lemma consistent_exists_iff_interest:
  assumes "consistent g"
  shows "(descriptors_of g h n \<noteq> None) \<longleftrightarrow>
     (interest_of g h n Readable \<or> interest_of g h n Writable \<or>
      interest_of g h n ExceptionPending)"
proof (cases "descriptors_of g h n")
  case None
  then show ?thesis by (simp add: interest_of_def)
next
  case (Some d)
  then obtain node hs where "heap g node = Some hs" "fileDescriptorSm hs n = Some d"
    by (rule descriptors_of_SomeD)
  then have "notifyOnReadable (fileDescriptor d) \<or> notifyOnWritable (fileDescriptor d) \<or>
        notifyOnException (fileDescriptor d)"
    using assms unfolding consistent_def interest_inv_def by blast
  then show ?thesis using Some by (simp add: interest_of_def)
qed

text \<open>
  Claim C1.  After every run of constructions, destructions, interest settings and
  deliveries from the initial state (each construction at a fresh handler address with a
  fresh node, each destruction of a constructed handler), the two registry maps are
  inverses of each other: \<open>(h, node)\<close> is in \<open>fileHandlerToFileHandlerSm\<close> exactly when
  \<open>(node, h)\<close> is in \<open>fileHandlerSmToFileHandler\<close>.  Their entries are those of the handlers
  alive after the run, every such handler has exactly one node, and the heap holds no
  other node.
\<close>

theorem registry_maps_inverse:
  assumes "admissible initial_state es" and "run initial_state es = Inr g"
  shows "(\<forall>h node. fileHandlerToFileHandlerSm g h = Some node \<longleftrightarrow>
                    fileHandlerSmToFileHandler g node = Some h) \<and>
         dom (fileHandlerToFileHandlerSm g) = live_after {} es \<and>
         (\<forall>h \<in> live_after {} es.
            \<exists>!node. fileHandlerToFileHandlerSm g h = Some node \<and> heap g node \<noteq> None) \<and>
         dom (heap g) = ran (fileHandlerToFileHandlerSm g)"
proof -
  from run_preserves[OF consistent_initial assms]
  have c: "consistent g"
    and l: "dom (fileHandlerToFileHandlerSm g) = live_after {} es"
    by (simp_all add: initial_state_def)
  then have r: "registry_inv g" by (simp add: consistent_def)
  have inv: "\<forall>h node. fileHandlerToFileHandlerSm g h = Some node \<longleftrightarrow>
                    fileHandlerSmToFileHandler g node = Some h"
    using r unfolding registry_inv_def by blast
  have one: "\<exists>!node. fileHandlerToFileHandlerSm g h = Some node \<and> heap g node \<noteq> None"
    if "h \<in> live_after {} es" for h
  proof -
    from that l obtain node where n: "fileHandlerToFileHandlerSm g h = Some node" by blast
    from registry_inv_node(4)[OF r n] n show ?thesis by auto
  qed
  have "dom (heap g) = dom (fileHandlerSmToFileHandler g)"
    using r unfolding registry_inv_def by blast
  also have "\<dots> = ran (fileHandlerToFileHandlerSm g)"
    using inv by (auto simp: ran_def dom_def)
  finally show ?thesis using inv l one by blast
qed

text \<open>
  Claim C4.  In every state reached by a run from the initial state, that is between
  completed operations and in particular after each interest setter that returned, a
  handler holds a record for a descriptor if and only if at least one of the three
  interest flags of that descriptor is set.
\<close>

theorem record_exists_iff_interest:
  assumes "admissible initial_state es" and "run initial_state es = Inr g"
  shows "(descriptors_of g h n \<noteq> None) \<longleftrightarrow>
     (interest_of g h n Readable \<or> interest_of g h n Writable \<or>
      interest_of g h n ExceptionPending)"
  using run_preserves[OF consistent_initial assms] consistent_exists_iff_interest by blast

text \<open>
  Claim C2.  In a consistent registry, let handler \<open>h\<close> hold the record \<open>d\<close> for descriptor
  \<open>n\<close>.  Setting interest \<open>k\<close> to false returns; when no flag other than \<open>k\<close> is set in
  \<open>d\<close>, the record is removed from the mapping of \<open>h\<close>, and when another flag is set, the
  record stays, with flag \<open>k\<close> cleared.  The rest of the mapping is unchanged.
\<close>

theorem eager_cleanup:
  assumes "registry_inv g" and "descriptor_inv g" and "descriptors_of g h n = Some d"
  shows "((\<forall>j. j \<noteq> k \<longrightarrow> \<not> flag j (fileDescriptor d)) \<longrightarrow>
            (\<exists>g1. set_interest k g h n False = Inr g1 \<and>
                  descriptors_of g1 h = (descriptors_of g h)(n := None))) \<and>
         ((\<exists>j. j \<noteq> k \<and> flag j (fileDescriptor d)) \<longrightarrow>
            (\<exists>g1. set_interest k g h n False = Inr g1 \<and>
                  descriptors_of g1 h = (descriptors_of g h)
                    (n \<mapsto> d\<lparr>fileDescriptor := with_flag k False (fileDescriptor d)\<rparr>)))"
proof -
  from assms(3) obtain node hs where
    node: "fileHandlerToFileHandlerSm g h = Some node" and hs: "heap g node = Some hs"
    and d: "fileDescriptorSm hs n = Some d"
    by (rule descriptors_of_SomeD)
  have dn: "descriptor (fileDescriptor d) = n"
    using descriptor_inv_entry[OF assms(2) hs d] by simp
  then have same: "(fileDescriptor d)\<lparr>descriptor := n\<rparr> = fileDescriptor d" by auto
  let ?x = "with_flag k False (fileDescriptor d)"
  have e: "entry_after k False n node (fileDescriptorSm hs n) =
      (if quiet ?x then None else Some (d\<lparr>fileDescriptor := ?x\<rparr>))"
    by (simp add: entry_after_def d same Let_def)
  have q: "quiet ?x \<longleftrightarrow> (\<forall>j. j \<noteq> k \<longrightarrow> \<not> flag j (fileDescriptor d))"
    by (auto simp: quiet_flag)
  note r = set_interest_registered[OF assms(1,2) node hs, of k n False]
  show ?thesis
    unfolding r descriptors_of_registered[OF node hs]
    using q by (auto simp: descriptors_of_heap_update[OF node] e)
qed

text \<open>
  Claim C3.  In a consistent registry, let the registered handler \<open>h\<close> (with node \<open>node\<close>)
  hold no record for descriptor \<open>n\<close>.  Each of the three setters, called with interest
  true, returns and adds exactly one record to the mapping of \<open>h\<close>, under \<open>n\<close>: its key and
  its descriptor number are \<open>n\<close>, the flag set is the only one on, and it points back to
  \<open>node\<close>.  The mappings of the other handlers are unchanged, and a second call with the
  same arguments returns the same state: no second record.
\<close>

theorem lazy_creation:
  assumes "registry_inv g" and "fileHandlerToFileHandlerSm g h = Some node"
    and "descriptors_of g h n = None"
  shows "\<exists>g1. set_interest k g h n True = Inr g1 \<and>
           descriptors_of g1 h = (descriptors_of g h)
             (n \<mapsto> \<lparr>fd = n,
                    fileDescriptor = with_flag k True
                      \<lparr>descriptor = n, notifyOnReadable = False, notifyOnWritable = False,
                       notifyOnException = False\<rparr>,
                    fileHandlerSm = node\<rparr>) \<and>
           (\<forall>h'. h' \<noteq> h \<longrightarrow> descriptors_of g1 h' = descriptors_of g h') \<and>
           set_interest k g1 h n True = Inr g1"
proof -
  obtain hs where hs: "heap g node = Some hs"
    using registry_inv_node(4)[OF assms(1,2)] by blast
  have nz: "node \<noteq> 0" by (rule registry_inv_node(1)[OF assms(1,2)])
  have none: "fileDescriptorSm hs n = None"
    using assms(3) by (simp add: descriptors_of_registered[OF assms(2) hs])
  let ?d = "\<lparr>fd = n,
             fileDescriptor = with_flag k True
               \<lparr>descriptor = n, notifyOnReadable = False, notifyOnWritable = False,
                notifyOnException = False\<rparr>,
             fileHandlerSm = node\<rparr>"
  let ?hs1 = "hs\<lparr>fileDescriptorSm := (fileDescriptorSm hs)(n \<mapsto> ?d)\<rparr>"
  let ?g1 = "g\<lparr>heap := (heap g)(node \<mapsto> ?hs1)\<rparr>"
  have e: "entry_after k True n node None = Some ?d"
    by (cases k) (simp_all add: entry_after_def fresh_record_def FileDescriptorIs_def)
  have first: "set_interest k g h n True = Inr ?g1"
    using set_interest_result[OF assms(2) nz hs, of n k True] none by (simp add: e)
  have e2: "entry_after k True n node (Some ?d) = Some ?d"
    by (cases k) (simp_all add: entry_after_def)
  have second: "set_interest k ?g1 h n True = Inr ?g1"
    using set_interest_result[of ?g1 h node ?hs1 n k True] assms(2) nz
    by (simp add: e2)
  have other: "descriptors_of ?g1 h' = descriptors_of g h'" if "h' \<noteq> h" for h'
  proof -
    have "fileHandlerToFileHandlerSm g h' \<noteq> Some node"
      using assms(1,2) that unfolding registry_inv_def by (metis option.inject)
    then show ?thesis by (rule descriptors_of_heap_update_other)
  qed
  show ?thesis
    using first second other
    by (auto simp: descriptors_of_heap_update[OF assms(2)] descriptors_of_registered[OF assms(2) hs])
qed

lemma entry_after_idem:
  "entry_after k v n node (entry_after k v n node old) = entry_after k v n node old"
  by (cases k; cases old; cases v)
     (auto simp: entry_after_def fresh_record_def FileDescriptorIs_def quiet_def Let_def)

text \<open>
  Claim C5.  For a registered handler in a consistent registry, calling an interest setter
  a second time with the same descriptor and value returns the state that the first call
  returned: mapping and flags are those after one call.  This holds for every value, so
  in particular for the current value of the flag.
\<close>

theorem setter_idempotent:
  assumes "registry_inv g" and "descriptor_inv g"
    and "fileHandlerToFileHandlerSm g h = Some node"
  shows "\<exists>g1. set_interest k g h n v = Inr g1 \<and> set_interest k g1 h n v = Inr g1"
proof -
  obtain hs where hs: "heap g node = Some hs"
    using registry_inv_node(4)[OF assms(1,3)] by blast
  let ?e = "entry_after k v n node (fileDescriptorSm hs n)"
  let ?hs1 = "hs\<lparr>fileDescriptorSm := (fileDescriptorSm hs)(n := ?e)\<rparr>"
  let ?g1 = "g\<lparr>heap := (heap g)(node \<mapsto> ?hs1)\<rparr>"
  have first: "set_interest k g h n v = Inr ?g1"
    by (rule set_interest_registered[OF assms hs])
  have bp1: "fileHandlerSm d = node" if "fileDescriptorSm ?hs1 n = Some d" for d
    using that entry_after_wf[of k v n node "fileDescriptorSm hs n" d]
      descriptor_inv_entry[OF assms(2) hs] by auto
  have "set_interest k ?g1 h n v =
      Inr (?g1\<lparr>heap := (heap ?g1)(node \<mapsto> ?hs1\<lparr>fileDescriptorSm := (fileDescriptorSm ?hs1)
           (n := entry_after k v n node (fileDescriptorSm ?hs1 n))\<rparr>)\<rparr>)"
    by (rule set_interest_result[of ?g1 h node ?hs1 n k v])
       (use assms(3) registry_inv_node(1)[OF assms(1,3)] bp1 in auto)
  also have "\<dots> = Inr ?g1"
    using entry_after_idem[of k v n node "fileDescriptorSm hs n"] by simp
  finally show ?thesis using first by blast
qed

text \<open>
  Claim C9.  For a registered handler in a consistent registry, let flag \<open>k\<close> of descriptor
  \<open>n\<close> be off, either because the handler holds no record for \<open>n\<close> or because the record
  has another flag set.  Setting interest \<open>k\<close> to false returns without an error and
  leaves the whole state as it was: no record for \<open>n\<close> appears, and a record with another
  flag set is not removed.
\<close>

theorem clearing_cleared_flag_changes_nothing:
  assumes "registry_inv g" and "descriptor_inv g"
    and "fileHandlerToFileHandlerSm g h = Some node"
    and "\<not> interest_of g h n k"
    and "descriptors_of g h n = None \<or> (\<exists>j. interest_of g h n j)"
  shows "set_interest k g h n False = Inr g"
proof -
  obtain hs where hs: "heap g node = Some hs"
    using registry_inv_node(4)[OF assms(1,3)] by blast
  note dof = descriptors_of_registered[OF assms(3) hs]
  have e: "entry_after k False n node (fileDescriptorSm hs n) = fileDescriptorSm hs n"
  proof (cases "fileDescriptorSm hs n")
    case None
    then show ?thesis
      by (cases k) (simp_all add: entry_after_def fresh_record_def FileDescriptorIs_def quiet_def)
  next
    case (Some d)
    have dn: "descriptor (fileDescriptor d) = n"
      using descriptor_inv_entry[OF assms(2) hs Some] by simp
    then have same: "(fileDescriptor d)\<lparr>descriptor := n\<rparr> = fileDescriptor d" by auto
    have off: "\<not> flag k (fileDescriptor d)"
      using assms(4) Some by (simp add: interest_of_def dof)
    obtain j where j: "flag j (fileDescriptor d)"
      using assms(5) Some by (auto simp: interest_of_def dof)
    have w: "with_flag k False (fileDescriptor d) = fileDescriptor d"
      using off by (simp add: with_flag_same)
    have "\<not> quiet (fileDescriptor d)" using j by (auto simp: quiet_flag)
    then show ?thesis
      by (simp add: Some entry_after_def same w)
  qed
  have "hs\<lparr>fileDescriptorSm := (fileDescriptorSm hs)(n := fileDescriptorSm hs n)\<rparr> = hs"
    by simp
  then show ?thesis
    using hs by (simp add: set_interest_registered[OF assms(1,2,3) hs] e map_upd_triv)
qed

text \<open>
  Claim C6.  In a consistent registry, let handler \<open>h\<close> hold the record \<open>d\<close> for descriptor
  \<open>n\<close>.  A readable, writable or exception event delivered to \<open>d\<close> calls exactly
  \<open>on_readable\<close>, \<open>on_writable\<close> or \<open>on_exception\<close> of \<open>h\<close>, with \<open>n\<close> as argument, and no
  other callback.
\<close>

theorem dispatch_routes_to_owner:
  assumes "registry_inv g" and "descriptor_inv g" and "descriptors_of g h n = Some d"
  shows "handleReadable g d = Inr (g, on_readable h n) \<and>
         handleWritable g d = Inr (g, on_writable h n) \<and>
         handleExceptionPending g d = Inr (g, on_exception h n)"
proof -
  from assms(3) obtain node hs where
    node: "fileHandlerToFileHandlerSm g h = Some node" and hs: "heap g node = Some hs"
    and d: "fileDescriptorSm hs n = Some d"
    by (rule descriptors_of_SomeD)
  have w: "fd d = n" "fileHandlerSm d = node"
    using descriptor_inv_entry[OF assms(2) hs d] by simp_all
  have r: "fileHandlerSmToFileHandler g node = Some h" "h \<noteq> 0"
    using registry_inv_node[OF assms(1) node] by simp_all
  have "dispatch k g d = Inr (g, callback_of k h n)" for k
    by (simp add: dispatch_result w r)
  from this[of Readable] this[of Writable] this[of ExceptionPending]
  show ?thesis by simp
qed

text \<open>
  Claim C8.  Each of the three dispatch entries either fails its assertion, which aborts
  the process, or returns with the state it was called in, having made one callback with
  the descriptor number of the record: the adapter changes neither registry map nor any
  descriptor mapping.
\<close>

theorem dispatch_adapter_frame:
  "(handleReadable g d = Inl AssertionFailed \<or>
      (\<exists>h. handleReadable g d = Inr (g, on_readable h (fd d)))) \<and>
   (handleWritable g d = Inl AssertionFailed \<or>
      (\<exists>h. handleWritable g d = Inr (g, on_writable h (fd d)))) \<and>
   (handleExceptionPending g d = Inl AssertionFailed \<or>
      (\<exists>h. handleExceptionPending g d = Inr (g, on_exception h (fd d))))"
proof -
  have "dispatch k g d = Inl AssertionFailed \<or>
      (\<exists>h. dispatch k g d = Inr (g, callback_of k h (fd d)))" for k
    by (auto simp: dispatch_result split: option.split)
  from this[of Readable] this[of Writable] this[of ExceptionPending]
  show ?thesis by simp
qed

lemmas eval_defs =
  initial_state_def file_handler_ctor_def file_handler_dtor_def map_subscript_def map_erase_def
  FileHandlerSmIs_def FileDescriptorIs_def fileDescriptorSmIs_def fileDescriptorSmDel_def
  fdSm_deref_def fdSm_modify_def get_file_descriptor_sm_def maybeCleanupAfterFileDescriptor_def
  read_interest_is_def write_interest_is_def exception_interest_is_def
  handleReadable_def handleWritable_def handleExceptionPending_def Let_def

lemma run_one_handler_empty:
  "run initial_state [Construct 100 10] = Inr (one_handler Map.empty)"
  by (simp add: eval_defs one_handler_def)

lemma run_one_handler_reader:
  "run initial_state [Construct 100 10, SetInterest Readable 100 7 True] =
     Inr (one_handler [7 \<mapsto> reader_record])"
  by (simp add: eval_defs one_handler_def reader_record_def)

lemma run_one_handler_reader_writer:
  "run initial_state
     [Construct 100 10, SetInterest Readable 100 7 True, SetInterest Writable 100 7 True] =
     Inr (one_handler [7 \<mapsto> reader_writer_record])"
  by (simp add: eval_defs one_handler_def reader_writer_record_def)

lemma run_construct_destruct:
  "run initial_state
     [Construct 100 10, Construct 200 20, SetInterest Readable 100 7 True, Destruct 200] =
     Inr (one_handler [7 \<mapsto> reader_record])"
  by (simp add: eval_defs one_handler_def reader_record_def)

text \<open>
  The end-to-end scenario of the specification: construct a handler, set and clear write
  interest on descriptor 5; the record is created and then deleted.
\<close>

lemma run_end_to_end:
  "run initial_state
     [Construct 100 10, SetInterest Writable 100 5 True, SetInterest Writable 100 5 False] =
     Inr (one_handler Map.empty)"
  by (simp add: eval_defs one_handler_def)

lemma step_keeps_unregistered:
  assumes "consistent g" "admissible_event g e" "step g e = Inr g1"
    "fileHandlerSmToFileHandler g node = None" "node \<notin> handed_out [e]"
  shows "fileHandlerSmToFileHandler g1 node = None"
proof (cases e)
  case (Construct h node')
  then show ?thesis
    using assms by (auto simp: ctor_unregistered)
next
  case (Destruct h)
  then show ?thesis
    using assms by (auto simp: file_handler_dtor_def map_erase_def split: prod.splits)
next
  case (SetInterest k h n v)
  then show ?thesis
    using assms set_interest_preserves(5)[of g k h n v g1] by (auto simp: consistent_def)
next
  case (Deliver k node' n)
  then have "g1 = g"
    using assms(3) by (auto simp: dispatch_result split: option.splits if_splits)
  then show ?thesis using assms(4) by simp
qed

lemma handed_out_Cons: "handed_out (e # es) = handed_out [e] \<union> handed_out es"
  by (cases e) simp_all

lemma run_keeps_unregistered:
  "consistent g \<Longrightarrow> admissible g es \<Longrightarrow> run g es = Inr g1 \<Longrightarrow>
     fileHandlerSmToFileHandler g node = None \<Longrightarrow> node \<notin> handed_out es \<Longrightarrow>
     fileHandlerSmToFileHandler g1 node = None"
proof (induction es arbitrary: g)
  case Nil
  then show ?case by simp
next
  case (Cons e es)
  from Cons.prems(3) obtain g' where s: "step g e = Inr g'" and r: "run g' es = Inr g1"
    by (auto split: sum.splits)
  from Cons.prems(2) s have ae: "admissible_event g e" and ad: "admissible g' es"
    by auto
  from Cons.prems(5) have n1: "node \<notin> handed_out [e]" and n2: "node \<notin> handed_out es"
    using handed_out_Cons[of e es] by auto
  have c: "consistent g'"
    using step_preserves[OF Cons.prems(1) ae s] by simp
  have u: "fileHandlerSmToFileHandler g' node = None"
    by (rule step_keeps_unregistered[OF Cons.prems(1) ae s Cons.prems(4) n1])
  show ?case by (rule Cons.IH[OF c ad r u n2])
qed

lemma consistent_dtor:
  assumes "consistent g" "fileHandlerToFileHandlerSm g h = Some node"
  shows "consistent (file_handler_dtor g h)"
    and "fileHandlerSmToFileHandler (file_handler_dtor g h) node = None"
proof -
  have r: "registry_inv g" using assms(1) by (simp add: consistent_def)
  show "consistent (file_handler_dtor g h)"
    using assms(1) dtor_preserves[OF r assms(2)] by (simp add: consistent_def)
  show "fileHandlerSmToFileHandler (file_handler_dtor g h) node = None"
    by (simp add: dtor_registered[OF assms(2) registry_inv_node(1)[OF r assms(2)]])
qed

text \<open>
  Claim C7, as amended.  Let handler \<open>h\<close> with node \<open>node\<close> be destroyed in a consistent
  state, and let any run follow in which the allocator does not hand out the address
  \<open>node\<close> again.  Then every readiness event delivered to a record whose back pointer is
  \<open>node\<close> fails the assertion of the dispatch entry: the process aborts and no callback is
  made.  (The registry is keyed by the node's address: once the address is handed out for
  the node of a new handler, an event for a record of the former node is routed to the new
  handler, as the last theorem of this section shows.)
\<close>

theorem dispatch_after_teardown_aborts:
  assumes "consistent g" and "fileHandlerToFileHandlerSm g h = Some node"
    and "admissible (file_handler_dtor g h) es"
    and "run (file_handler_dtor g h) es = Inr g1"
    and "node \<notin> handed_out es"
    and "fileHandlerSm d = node"
  shows "handleReadable g1 d = Inl AssertionFailed \<and>
         handleWritable g1 d = Inl AssertionFailed \<and>
         handleExceptionPending g1 d = Inl AssertionFailed"
proof -
  have "fileHandlerSmToFileHandler g1 node = None"
    by (rule run_keeps_unregistered[OF consistent_dtor(1)[OF assms(1,2)] assms(3,4)
          consistent_dtor(2)[OF assms(1,2)] assms(5)])
  then have "dispatch k g1 d = Inl AssertionFailed" for k
    by (simp add: dispatch_result assms(6))
  from this[of Readable] this[of Writable] this[of ExceptionPending]
  show ?thesis by simp
qed

lemma consistent_reachable:
  "admissible initial_state es \<Longrightarrow> run initial_state es = Inr g \<Longrightarrow> consistent g"
  using run_preserves[OF consistent_initial] by blast

lemma consistent_one_handler_empty: "consistent (one_handler Map.empty)"
  by (rule consistent_reachable[OF _ run_one_handler_empty]) (simp add: eval_defs)

lemma consistent_one_handler_reader: "consistent (one_handler [7 \<mapsto> reader_record])"
  by (rule consistent_reachable[OF _ run_one_handler_reader]) (simp add: eval_defs)

lemma consistent_one_handler_reader_writer:
  "consistent (one_handler [7 \<mapsto> reader_writer_record])"
  by (rule consistent_reachable[OF _ run_one_handler_reader_writer]) (simp add: eval_defs)

lemma descriptors_of_one_handler [simp]: "descriptors_of (one_handler ds) 100 = ds"
  by (simp add: descriptors_of_def one_handler_def)

lemma registered_one_handler [simp]:
  "fileHandlerToFileHandlerSm (one_handler ds) 100 = Some 10"
  by (simp add: one_handler_def)

theorem registry_maps_inverse_witness:
  "admissible initial_state
     [Construct 100 10, Construct 200 20, SetInterest Readable 100 7 True, Destruct 200] \<and>
   run initial_state
     [Construct 100 10, Construct 200 20, SetInterest Readable 100 7 True, Destruct 200] =
     Inr (one_handler [7 \<mapsto> reader_record]) \<and>
   fileHandlerToFileHandlerSm (one_handler [7 \<mapsto> reader_record]) 100 = Some 10 \<and>
   fileHandlerSmToFileHandler (one_handler [7 \<mapsto> reader_record]) 10 = Some 100 \<and>
   dom (fileHandlerToFileHandlerSm (one_handler [7 \<mapsto> reader_record])) = {100} \<and>
   dom (heap (one_handler [7 \<mapsto> reader_record])) =
     ran (fileHandlerToFileHandlerSm (one_handler [7 \<mapsto> reader_record]))"
proof -
  let ?es = "[Construct 100 10, Construct 200 20, SetInterest Readable 100 7 True, Destruct 200]"
  have a: "admissible initial_state ?es" by (simp add: eval_defs)
  have l: "live_after {} ?es = {100}" by auto
  from registry_maps_inverse[OF a run_construct_destruct] a run_construct_destruct l
  show ?thesis by (simp add: one_handler_def)
qed

theorem record_exists_iff_interest_witness:
  "admissible initial_state [Construct 100 10, SetInterest Readable 100 7 True] \<and>
   run initial_state [Construct 100 10, SetInterest Readable 100 7 True] =
     Inr (one_handler [7 \<mapsto> reader_record]) \<and>
   descriptors_of (one_handler [7 \<mapsto> reader_record]) 100 7 \<noteq> None \<and>
   interest_of (one_handler [7 \<mapsto> reader_record]) 100 7 Readable \<and>
   descriptors_of (one_handler [7 \<mapsto> reader_record]) 100 5 = None \<and>
   \<not> interest_of (one_handler [7 \<mapsto> reader_record]) 100 5 Readable"
proof -
  let ?es = "[Construct 100 10, SetInterest Readable 100 7 True]"
  have a: "admissible initial_state ?es" by (simp add: eval_defs)
  from record_exists_iff_interest[OF a run_one_handler_reader, of 100 7]
    record_exists_iff_interest[OF a run_one_handler_reader, of 100 5]
    a run_one_handler_reader
  show ?thesis by (simp add: interest_of_def reader_record_def)
qed

lemma registry_inv_consistent: "consistent g \<Longrightarrow> registry_inv g"
  by (simp add: consistent_def)

lemma descriptor_inv_consistent: "consistent g \<Longrightarrow> descriptor_inv g"
  by (simp add: consistent_def)

theorem eager_cleanup_witness:
  "registry_inv (one_handler [7 \<mapsto> reader_record]) \<and>
   descriptor_inv (one_handler [7 \<mapsto> reader_record]) \<and>
   descriptors_of (one_handler [7 \<mapsto> reader_record]) 100 7 = Some reader_record \<and>
   \<not> flag Writable (fileDescriptor reader_record) \<and>
   \<not> flag ExceptionPending (fileDescriptor reader_record) \<and>
   (\<exists>g1. set_interest Readable (one_handler [7 \<mapsto> reader_record]) 100 7 False = Inr g1 \<and>
         descriptors_of g1 100 = Map.empty) \<and>
   registry_inv (one_handler [7 \<mapsto> reader_writer_record]) \<and>
   descriptor_inv (one_handler [7 \<mapsto> reader_writer_record]) \<and>
   descriptors_of (one_handler [7 \<mapsto> reader_writer_record]) 100 7 = Some reader_writer_record \<and>
   (\<exists>j. j \<noteq> Readable \<and> flag j (fileDescriptor reader_writer_record)) \<and>
   (\<exists>g1. set_interest Readable (one_handler [7 \<mapsto> reader_writer_record]) 100 7 False = Inr g1 \<and>
         descriptors_of g1 100 = [7 \<mapsto> writer_record])"
proof -
  let ?g = "one_handler [7 \<mapsto> reader_record]"
  let ?g2 = "one_handler [7 \<mapsto> reader_writer_record]"
  note r = registry_inv_consistent[OF consistent_one_handler_reader]
  note d = descriptor_inv_consistent[OF consistent_one_handler_reader]
  note r2 = registry_inv_consistent[OF consistent_one_handler_reader_writer]
  note d2 = descriptor_inv_consistent[OF consistent_one_handler_reader_writer]
  have e: "descriptors_of ?g 100 7 = Some reader_record" by simp
  have e2: "descriptors_of ?g2 100 7 = Some reader_writer_record" by simp
  have last: "\<forall>j. j \<noteq> Readable \<longrightarrow> \<not> flag j (fileDescriptor reader_record)"
  proof (intro allI impI)
    fix j :: interest_kind
    assume "j \<noteq> Readable"
    then show "\<not> flag j (fileDescriptor reader_record)"
      by (cases j) (simp_all add: reader_record_def)
  qed
  have more: "\<exists>j. j \<noteq> Readable \<and> flag j (fileDescriptor reader_writer_record)"
    by (rule exI[of _ Writable]) (simp add: reader_writer_record_def)
  have w: "reader_writer_record
             \<lparr>fileDescriptor := (fileDescriptor reader_writer_record)
                \<lparr>notifyOnReadable := False\<rparr>\<rparr> =
           writer_record"
    by (simp add: reader_writer_record_def writer_record_def)
  from eager_cleanup[OF r d e, of Readable] last
  have c1: "\<exists>g1. set_interest Readable ?g 100 7 False = Inr g1 \<and>
         descriptors_of g1 100 = Map.empty"
    by simp
  from eager_cleanup[OF r2 d2 e2, of Readable] more
  have c2: "\<exists>g1. set_interest Readable ?g2 100 7 False = Inr g1 \<and>
         descriptors_of g1 100 = [7 \<mapsto> writer_record]"
    by (simp add: w)
  have off: "\<not> flag Writable (fileDescriptor reader_record)"
    "\<not> flag ExceptionPending (fileDescriptor reader_record)"
    by (simp_all add: reader_record_def)
  show ?thesis using r d e off c1 r2 d2 e2 more c2 by blast
qed

theorem lazy_creation_witness:
  "registry_inv (one_handler Map.empty) \<and>
   fileHandlerToFileHandlerSm (one_handler Map.empty) 100 = Some 10 \<and>
   descriptors_of (one_handler Map.empty) 100 7 = None \<and>
   (\<exists>g1. set_interest Readable (one_handler Map.empty) 100 7 True = Inr g1 \<and>
         descriptors_of g1 100 = [7 \<mapsto> reader_record] \<and>
         set_interest Readable g1 100 7 True = Inr g1)"
proof -
  note r = registry_inv_consistent[OF consistent_one_handler_empty]
  have h: "fileHandlerToFileHandlerSm (one_handler Map.empty) 100 = Some 10" by simp
  have n: "descriptors_of (one_handler Map.empty) 100 7 = None" by simp
  from lazy_creation[OF r h n, of Readable]
  have "\<exists>g1. set_interest Readable (one_handler Map.empty) 100 7 True = Inr g1 \<and>
         descriptors_of g1 100 = [7 \<mapsto> reader_record] \<and>
         set_interest Readable g1 100 7 True = Inr g1"
    by (simp add: reader_record_def) blast
  then show ?thesis using r h n by blast
qed

theorem setter_idempotent_witness:
  "registry_inv (one_handler [7 \<mapsto> reader_record]) \<and>
   descriptor_inv (one_handler [7 \<mapsto> reader_record]) \<and>
   fileHandlerToFileHandlerSm (one_handler [7 \<mapsto> reader_record]) 100 = Some 10 \<and>
   interest_of (one_handler [7 \<mapsto> reader_record]) 100 7 Readable = True \<and>
   (\<exists>g1. set_interest Readable (one_handler [7 \<mapsto> reader_record]) 100 7 True = Inr g1 \<and>
         set_interest Readable g1 100 7 True = Inr g1)"
proof -
  note r = registry_inv_consistent[OF consistent_one_handler_reader]
  note d = descriptor_inv_consistent[OF consistent_one_handler_reader]
  have h: "fileHandlerToFileHandlerSm (one_handler [7 \<mapsto> reader_record]) 100 = Some 10"
    by simp
  have i: "interest_of (one_handler [7 \<mapsto> reader_record]) 100 7 Readable = True"
    by (simp add: interest_of_def reader_record_def)
  from setter_idempotent[OF r d h, of Readable 7 True] r d h i
  show ?thesis by blast
qed

theorem clearing_cleared_flag_changes_nothing_witness:
  "registry_inv (one_handler [7 \<mapsto> reader_record]) \<and>
   descriptor_inv (one_handler [7 \<mapsto> reader_record]) \<and>
   fileHandlerToFileHandlerSm (one_handler [7 \<mapsto> reader_record]) 100 = Some 10 \<and>
   \<not> interest_of (one_handler [7 \<mapsto> reader_record]) 100 7 Writable \<and>
   interest_of (one_handler [7 \<mapsto> reader_record]) 100 7 Readable \<and>
   set_interest Writable (one_handler [7 \<mapsto> reader_record]) 100 7 False =
     Inr (one_handler [7 \<mapsto> reader_record]) \<and>
   \<not> interest_of (one_handler [7 \<mapsto> reader_record]) 100 5 Writable \<and>
   descriptors_of (one_handler [7 \<mapsto> reader_record]) 100 5 = None \<and>
   set_interest Writable (one_handler [7 \<mapsto> reader_record]) 100 5 False =
     Inr (one_handler [7 \<mapsto> reader_record])"
proof -
  let ?g = "one_handler [7 \<mapsto> reader_record]"
  note r = registry_inv_consistent[OF consistent_one_handler_reader]
  note d = descriptor_inv_consistent[OF consistent_one_handler_reader]
  have h: "fileHandlerToFileHandlerSm ?g 100 = Some 10" by simp
  have off: "\<not> interest_of ?g 100 7 Writable"
    by (simp add: interest_of_def reader_record_def)
  have on: "interest_of ?g 100 7 Readable"
    by (simp add: interest_of_def reader_record_def)
  have off5: "\<not> interest_of ?g 100 5 Writable" by (simp add: interest_of_def)
  have none5: "descriptors_of ?g 100 5 = None" by simp
  have a: "descriptors_of ?g 100 7 = None \<or> (\<exists>j. interest_of ?g 100 7 j)"
    using on by blast
  have b: "descriptors_of ?g 100 5 = None \<or> (\<exists>j. interest_of ?g 100 5 j)"
    using none5 by blast
  from clearing_cleared_flag_changes_nothing[OF r d h off a]
    clearing_cleared_flag_changes_nothing[OF r d h off5 b]
    r d h off on off5 none5
  show ?thesis by blast
qed

theorem dispatch_routes_to_owner_witness:
  "registry_inv (one_handler [7 \<mapsto> reader_record]) \<and>
   descriptor_inv (one_handler [7 \<mapsto> reader_record]) \<and>
   descriptors_of (one_handler [7 \<mapsto> reader_record]) 100 7 = Some reader_record \<and>
   handleReadable (one_handler [7 \<mapsto> reader_record]) reader_record =
     Inr (one_handler [7 \<mapsto> reader_record], on_readable 100 7) \<and>
   handleWritable (one_handler [7 \<mapsto> reader_record]) reader_record =
     Inr (one_handler [7 \<mapsto> reader_record], on_writable 100 7) \<and>
   handleExceptionPending (one_handler [7 \<mapsto> reader_record]) reader_record =
     Inr (one_handler [7 \<mapsto> reader_record], on_exception 100 7)"
proof -
  note r = registry_inv_consistent[OF consistent_one_handler_reader]
  note d = descriptor_inv_consistent[OF consistent_one_handler_reader]
  have e: "descriptors_of (one_handler [7 \<mapsto> reader_record]) 100 7 = Some reader_record"
    by simp
  from dispatch_routes_to_owner[OF r d e] r d e show ?thesis by blast
qed

theorem dispatch_after_teardown_aborts_witness:
  "consistent (one_handler [7 \<mapsto> reader_record]) \<and>
   fileHandlerToFileHandlerSm (one_handler [7 \<mapsto> reader_record]) 100 = Some 10 \<and>
   admissible (file_handler_dtor (one_handler [7 \<mapsto> reader_record]) 100) [Construct 200 20] \<and>
   10 \<notin> handed_out [Construct 200 20] \<and>
   fileHandlerSm reader_record = 10 \<and>
   (\<exists>g1. run (file_handler_dtor (one_handler [7 \<mapsto> reader_record]) 100) [Construct 200 20] =
           Inr g1 \<and>
         handleReadable g1 reader_record = Inl AssertionFailed \<and>
         handleWritable g1 reader_record = Inl AssertionFailed \<and>
         handleExceptionPending g1 reader_record = Inl AssertionFailed)"
proof -
  let ?g = "one_handler [7 \<mapsto> reader_record]"
  note c = consistent_one_handler_reader
  have h: "fileHandlerToFileHandlerSm ?g 100 = Some 10" by simp
  have a: "admissible (file_handler_dtor ?g 100) [Construct 200 20]"
    by (simp add: eval_defs one_handler_def)
  have n: "10 \<notin> handed_out [Construct 200 20]" by simp
  have b: "fileHandlerSm reader_record = 10" by (simp add: reader_record_def)
  obtain g1 where r: "run (file_handler_dtor ?g 100) [Construct 200 20] = Inr g1"
    by simp
  from dispatch_after_teardown_aborts[OF c h a r n b] c h a r n b
  show ?thesis by blast
qed

theorem dispatch_adapter_frame_witness:
  "handleReadable (one_handler [7 \<mapsto> reader_record]) reader_record =
     Inr (one_handler [7 \<mapsto> reader_record], on_readable 100 7) \<and>
   handleReadable initial_state reader_record = Inl AssertionFailed"
proof -
  have a: "handleReadable (one_handler [7 \<mapsto> reader_record]) reader_record \<noteq> Inl AssertionFailed"
    by (simp add: eval_defs one_handler_def reader_record_def)
  have b: "\<And>h. handleReadable initial_state reader_record \<noteq> Inr (initial_state, on_readable h (fd reader_record))"
    by (simp add: eval_defs reader_record_def)
  have c: "\<And>h. handleReadable (one_handler [7 \<mapsto> reader_record]) reader_record =
       Inr (one_handler [7 \<mapsto> reader_record], on_readable h (fd reader_record)) \<Longrightarrow> h = 100"
    by (simp add: eval_defs one_handler_def reader_record_def)
  have f: "fd reader_record = 7" by (simp add: reader_record_def)
  from dispatch_adapter_frame[of "one_handler [7 \<mapsto> reader_record]" reader_record]
    dispatch_adapter_frame[of initial_state reader_record] a b c f
  show ?thesis by metis
qed

theorem sdk_getter_initialises_once_witness:
  "mgr_field Acl_mgr (sample_init Acl_mgr fresh_sdk) \<noteq> 0 \<and>
   get_mgr Acl_mgr (sample_init Acl_mgr) fresh_sdk =
     (sample_init Acl_mgr fresh_sdk, 5, 1) \<and>
   get_mgr_seq sample_init [Acl_mgr, Agent_mgr, Acl_mgr] (sample_init Acl_mgr fresh_sdk) =
     (sample_init Agent_mgr (sample_init Acl_mgr fresh_sdk),
      [(Acl_mgr, 5, 0), (Agent_mgr, 7, 1), (Acl_mgr, 5, 0)]) \<and>
   mgr_field Acl_mgr (sample_init Agent_mgr (sample_init Acl_mgr fresh_sdk)) = 5 \<and>
   (\<forall>k. get_mgr_times k Acl_mgr (sample_init Acl_mgr) (sample_init Acl_mgr fresh_sdk) =
          (sample_init Acl_mgr fresh_sdk, replicate k (5, 0)))"
proof -
  let ?s1 = "sample_init Acl_mgr fresh_sdk"
  let ?s2 = "sample_init Agent_mgr ?s1"
  have a: "mgr_field Acl_mgr (sample_init Acl_mgr fresh_sdk) \<noteq> 0" by simp
  have b: "\<forall>m' \<in> set [Acl_mgr, Agent_mgr, Acl_mgr]. m' \<noteq> Acl_mgr \<longrightarrow>
             (\<forall>t. mgr_field Acl_mgr (sample_init m' t) = mgr_field Acl_mgr t)"
    by simp
  have c: "get_mgr Acl_mgr (sample_init Acl_mgr) fresh_sdk = (?s1, 5, 1)"
    by (simp add: get_acl_mgr_def fresh_sdk_def)
  have d: "get_mgr_seq sample_init [Acl_mgr, Agent_mgr, Acl_mgr] ?s1 =
     (?s2, [(Acl_mgr, 5, 0), (Agent_mgr, 7, 1), (Acl_mgr, 5, 0)])"
    by (simp add: get_acl_mgr_def get_agent_mgr_def fresh_sdk_def)
  from sdk_getter_initialises_once[OF a b c d] a c d show ?thesis by simp
qed

text \<open>
  The claim without the condition on the allocator fails: handler 100 with node 10 holds
  \<open>reader_record\<close> for descriptor 7; it is destroyed; handler 200 is constructed and the
  allocator hands out address 10 again.  A readable event for \<open>reader_record\<close> then calls
  \<open>on_readable\<close> of handler 200 instead of failing the assertion.
\<close>

theorem dispatch_after_teardown_counterexample:
  "run initial_state [Construct 100 10, SetInterest Readable 100 7 True] =
     Inr (one_handler [7 \<mapsto> reader_record]) \<and>
   descriptors_of (one_handler [7 \<mapsto> reader_record]) 100 7 = Some reader_record \<and>
   admissible initial_state
     [Construct 100 10, SetInterest Readable 100 7 True, Destruct 100, Construct 200 10] \<and>
   run initial_state
     [Construct 100 10, SetInterest Readable 100 7 True, Destruct 100, Construct 200 10] =
     Inr second_handler \<and>
   fileHandlerToFileHandlerSm second_handler 100 = None \<and>
   handleReadable second_handler reader_record = Inr (second_handler, on_readable 200 7) \<and>
   handleWritable second_handler reader_record = Inr (second_handler, on_writable 200 7) \<and>
   handleExceptionPending second_handler reader_record =
     Inr (second_handler, on_exception 200 7)"
  by (simp add: eval_defs one_handler_def second_handler_def reader_record_def
      descriptors_of_def)

end
